theory Spec2Isabelle
  imports Main
begin

section \<open>Text primitives\<close>

text \<open>
  Text is modelled as \<^typ>\<open>string\<close>, one \<^typ>\<open>char\<close> per character of the
  Python \<open>str\<close>; the development covers the characters with code points below 256,
  and the character classes (whitespace, \<open>\w\<close>, upper case) are Python's on them.
  File contents are the decoded text with \<open>\n\<close> line ends, as Python's text mode
  delivers them.
\<close>

definition NL :: char where
  "NL = CHR 0x0A"

text \<open>
  \<open>str.isspace\<close> on one character, which is also the class \<open>\s\<close> of \<open>re\<close>: TAB, LF, VT,
  FF, CR, FS, GS, RS, US, SPACE, NEL and the no-break space.
\<close>

definition is_space :: "char \<Rightarrow> bool" where
  "is_space c = (c \<in> set [CHR 0x09, CHR 0x0A, CHR 0x0B, CHR 0x0C, CHR 0x0D,
                             CHR 0x1C, CHR 0x1D, CHR 0x1E, CHR 0x1F, CHR 0x20,
                             CHR 0x85, CHR 0xA0])"

text \<open>\<open>s.lstrip()\<close>, \<open>s.rstrip()\<close>, \<open>s.strip()\<close>.\<close>

definition lstrip :: "string \<Rightarrow> string" where
  "lstrip s = dropWhile is_space s"

definition rstrip :: "string \<Rightarrow> string" where
  "rstrip s = rev (dropWhile is_space (rev s))"

definition strip :: "string \<Rightarrow> string" where
  "strip s = rstrip (lstrip s)"

text \<open>\<open>s.startswith(p)\<close> and \<open>s.endswith(p)\<close>.\<close>

fun startswith :: "string \<Rightarrow> string \<Rightarrow> bool" where
  "startswith s [] = True"
| "startswith [] (p # ps) = False"
| "startswith (c # cs) (p # ps) = (c = p \<and> startswith cs ps)"

definition endswith :: "string \<Rightarrow> string \<Rightarrow> bool" where
  "endswith s p = startswith (rev s) (rev p)"

text \<open>\<open>t in s\<close>: the substring test.\<close>

fun contains :: "string \<Rightarrow> string \<Rightarrow> bool" where
  "contains t [] = (t = [])"
| "contains t (c # cs) = (startswith (c # cs) t \<or> contains t cs)"

text \<open>
  \<open>s.count(t)\<close>: the number of non-overlapping occurrences of \<open>t\<close>, found from the
  left; for the empty \<open>t\<close> it is \<open>len(s) + 1\<close>. The first argument of \<open>count_from\<close> is
  the number of characters still covered by the occurrence found last.
\<close>

fun count_from :: "nat \<Rightarrow> string \<Rightarrow> string \<Rightarrow> nat" where
  "count_from k t [] = 0"
| "count_from (Suc k) t (c # cs) = count_from k t cs"
| "count_from 0 t (c # cs) =
     (if startswith (c # cs) t then Suc (count_from (length t - 1) t cs)
      else count_from 0 t cs)"

definition str_count :: "string \<Rightarrow> string \<Rightarrow> nat" where
  "str_count s t = (if t = [] then length s + 1 else count_from 0 t s)"

text \<open>
  \<open>s.replace(t, r)\<close>: every non-overlapping occurrence of \<open>t\<close>, found from the left,
  becomes \<open>r\<close>; for the empty \<open>t\<close>, \<open>r\<close> is put before every character and at the end.
\<close>

fun replace_from :: "nat \<Rightarrow> string \<Rightarrow> string \<Rightarrow> string \<Rightarrow> string" where
  "replace_from k t r [] = []"
| "replace_from (Suc k) t r (c # cs) = replace_from k t r cs"
| "replace_from 0 t r (c # cs) =
     (if startswith (c # cs) t then r @ replace_from (length t - 1) t r cs
      else c # replace_from 0 t r cs)"

definition str_replace :: "string \<Rightarrow> string \<Rightarrow> string \<Rightarrow> string" where
  "str_replace s t r =
     (if t = [] then concat (map (\<lambda>c. r @ [c]) s) @ r else replace_from 0 t r s)"

text \<open>\<open>s.lower()\<close>: the upper-case letters are A to Z and the Latin-1 ones but the sharp s.\<close>

definition lower_char :: "char \<Rightarrow> char" where
  "lower_char c =
     (let n = (of_char c :: nat) in
      if (65 \<le> n \<and> n \<le> 90) \<or> (192 \<le> n \<and> n \<le> 214) \<or> (216 \<le> n \<and> n \<le> 222)
      then char_of (n + 32) else c)"

definition lower :: "string \<Rightarrow> string" where
  "lower s = map lower_char s"

text \<open>\<open>d.get(key, default)\<close>, the value under the key being given as an option.\<close>

definition get_default :: "'a option \<Rightarrow> 'a \<Rightarrow> 'a" where
  "get_default v d = (case v of None \<Rightarrow> d | Some x \<Rightarrow> x)"

section \<open>Files\<close>

text \<open>
  A binary document, as far as the converter builds it: headings with their level,
  paragraphs as lists of runs, tables as a header row and body rows, pictures by path.
\<close>

datatype block =
    Heading nat string
  | Paragraph "string list"
  | Table "string list" "string list list"
  | Picture string

text \<open>An entry handed to the edit-history logger \<open>log_edit_operation\<close>.\<close>

record log_entry =
  log_file_path :: string
  log_operation_type :: "string option"
  log_target :: string
  log_new_content :: string
  log_line_number :: "nat option"

text \<open>
  The world a tool runs in. A path string names a file, \<open>file_of\<close>, and two strings may
  name the same one. Per file, the world holds the text of a text file (\<open>files\<close>) or the
  binary document saved there (\<open>documents\<close>); \<open>unreadable\<close> are the files that exist but
  cannot be read as text for another reason (a directory, no read permission, bytes that
  are not UTF-8). \<open>writable\<close> says for which paths \<open>open(path, 'w')\<close> succeeds: not for the
  empty path, a path in a missing directory, a name the file system refuses as too long,
  a directory or a file without write permission. The world also keeps the trace of the
  paths opened for reading, so that "nothing was read" can be stated, and the entries
  handed to the edit-history logger, an external collaborator that keeps its own log.
\<close>

record world =
  files :: "string \<rightharpoonup> string"
  documents :: "string \<rightharpoonup> block list"
  file_of :: "string \<Rightarrow> string"
  unreadable :: "string \<Rightarrow> bool"
  writable :: "string \<Rightarrow> bool"
  reads :: "string list"
  edit_log :: "log_entry list"

datatype error =
    FileNotFound string
  | ReadError string
  | WriteError string
  | NotAList
  | NotMarkdown string
  | UnknownOperation "string option"
  | MissingParameter string
  | RegexError
  | HeadingLevelError nat
  | XmlError string
  | IndexError
  | WriteNotVerified string

text \<open>\<open>os.path.exists(p)\<close>\<close>

definition os_exists :: "world \<Rightarrow> string \<Rightarrow> bool" where
  "os_exists w p =
     (files w (file_of w p) \<noteq> None \<or> documents w (file_of w p) \<noteq> None
      \<or> unreadable w (file_of w p))"

text \<open>
  \<open>open(p, 'r').read()\<close>: \<open>FileNotFoundError\<close> when nothing is there, another
  error when what is there cannot be read as text.
\<close>

definition os_read :: "world \<Rightarrow> string \<Rightarrow> (error + string) \<times> world" where
  "os_read w p =
     (if \<not> os_exists w p then (Inl (FileNotFound p), w)
      else if unreadable w (file_of w p) \<or> documents w (file_of w p) \<noteq> None
      then (Inl (ReadError p), w)
      else (case files w (file_of w p) of
              None \<Rightarrow> (Inl (ReadError p), w)
            | Some c \<Rightarrow> (Inr c, w\<lparr>reads := reads w @ [p]\<rparr>)))"

text \<open>
  \<open>open(p, 'w').write(c)\<close>: an \<open>OSError\<close> when the path cannot be opened for writing,
  and then nothing is changed; otherwise the file is a text file with content \<open>c\<close>.
\<close>

definition written :: "world \<Rightarrow> string \<Rightarrow> string \<Rightarrow> world" where
  "written w p c =
     w\<lparr>files := (files w)(file_of w p \<mapsto> c),
       documents := (documents w)(file_of w p := None)\<rparr>"

definition os_write :: "world \<Rightarrow> string \<Rightarrow> string \<Rightarrow> error + world" where
  "os_write w p c = (if writable w p then Inr (written w p c) else Inl (WriteError p))"

text \<open>\<open>doc.save(p)\<close> of python-docx, which opens the path for writing.\<close>

definition save_document :: "world \<Rightarrow> string \<Rightarrow> block list \<Rightarrow> error + world" where
  "save_document w p d =
     (if writable w p
      then Inr (w\<lparr>documents := (documents w)(file_of w p \<mapsto> d),
                  files := (files w)(file_of w p := None)\<rparr>)
      else Inl (WriteError p))"

text \<open>The path names a file that can be read as text, with the content \<open>c\<close>.\<close>

definition text_file :: "world \<Rightarrow> string \<Rightarrow> string \<Rightarrow> bool" where
  "text_file w p c =
     (\<not> unreadable w (file_of w p) \<and> documents w (file_of w p) = None
      \<and> files w (file_of w p) = Some c)"

text \<open>\<open>os.path.basename\<close>: what follows the last slash.\<close>

definition basename :: "string \<Rightarrow> string" where
  "basename p = rev (takeWhile (\<lambda>c. c \<noteq> CHR ''/'') (rev p))"

section \<open>Chapter merger\<close>

text \<open>
  \<open>file_paths\<close> as it arrives from the request: a list of paths, or something that is
  not a list.
\<close>

datatype paths_arg = PathList "string list" | NotList

record merge_result =
  merged_path :: string
  merged_total :: nat
  merged_files :: "string list"

text \<open>
  The validation loop of \<open>_merge_chapters\<close>. \<open>absp\<close> is \<open>os.path.abspath\<close>, a function
  of the process's working directory.
\<close>

fun validate_paths :: "(string \<Rightarrow> string) \<Rightarrow> world \<Rightarrow> string list \<Rightarrow> error + string list" where
  "validate_paths absp w [] = Inr []"
| "validate_paths absp w (p # ps) =
     (let abs_path = absp p in
      if \<not> os_exists w abs_path then Inl (FileNotFound abs_path)
      else if \<not> endswith (lower abs_path) ''.md'' then Inl (NotMarkdown abs_path)
      else (case validate_paths absp w ps of
              Inl e \<Rightarrow> Inl e
            | Inr valid_paths \<Rightarrow> Inr (abs_path # valid_paths)))"

definition separator :: string where
  "separator = [NL, NL] @ ''---'' @ [NL, NL]"

text \<open>The reading loop: \<open>i\<close> is the index of \<open>enumerate\<close>.\<close>

fun merge_contents :: "nat \<Rightarrow> string list \<Rightarrow> string \<Rightarrow> world \<Rightarrow> (error + string) \<times> world" where
  "merge_contents i [] merged_content w = (Inr merged_content, w)"
| "merge_contents i (p # ps) merged_content w =
     (case os_read w p of
        (Inl e, w') \<Rightarrow> (Inl e, w')
      | (Inr c, w') \<Rightarrow>
          merge_contents (Suc i) ps
            ((if i > 0 then merged_content @ separator else merged_content) @ strip c) w')"

definition merge_chapters ::
  "(string \<Rightarrow> string) \<Rightarrow> paths_arg \<Rightarrow> string \<Rightarrow> world \<Rightarrow> (error + merge_result) \<times> world" where
  "merge_chapters absp md_paths output_path w =
     (case md_paths of
        NotList \<Rightarrow> (Inl NotAList, w)
      | PathList ps \<Rightarrow>
          (case validate_paths absp w ps of
             Inl e \<Rightarrow> (Inl e, w)
           | Inr valid_paths \<Rightarrow>
               (case merge_contents 0 valid_paths [] w of
                  (Inl e, w') \<Rightarrow> (Inl e, w')
                | (Inr merged_content, w') \<Rightarrow>
                    (case os_write w' output_path merged_content of
                       Inl e \<Rightarrow> (Inl e, w')
                     | Inr w'' \<Rightarrow>
                         (Inr \<lparr>merged_path = absp output_path,
                               merged_total = length valid_paths,
                               merged_files = map basename valid_paths\<rparr>, w'')))))"

text \<open>
  The tool boundary \<open>call\<close>: a missing \<open>file_paths\<close> is an error, a missing
  \<open>output_path\<close> defaults to \<open>merged.md\<close>, and every exception becomes a response with
  status \<open>failed\<close>.
\<close>

datatype 'a response = Failed error | Success 'a

fun is_failed :: "'a response \<Rightarrow> bool" where
  "is_failed (Failed e) = True"
| "is_failed (Success r) = False"

definition merger_call ::
  "(string \<Rightarrow> string) \<Rightarrow> paths_arg option \<Rightarrow> string option \<Rightarrow> world
     \<Rightarrow> merge_result response \<times> world" where
  "merger_call absp file_paths output_path w =
     (case file_paths of
        None \<Rightarrow> (Failed (MissingParameter ''file_paths''), w)
      | Some md_paths \<Rightarrow>
          (case merge_chapters absp md_paths (get_default output_path ''merged.md'') w of
             (Inl e, w') \<Rightarrow> (Failed e, w')
           | (Inr r, w') \<Rightarrow> (Success r, w')))"

section \<open>Structured editor\<close>

text \<open>
  The library \<open>re\<close> is external; the patterns of the edit operations come with the
  request. Its three functions are parameters, \<open>None\<close> standing for the exception
  \<open>re.error\<close> they raise on a pattern or a replacement template they refuse.
\<close>

record regex =
  re_findall :: "string \<Rightarrow> string \<Rightarrow> string list option"
  re_sub :: "string \<Rightarrow> string \<Rightarrow> string \<Rightarrow> string option"
  re_search :: "string \<Rightarrow> string \<Rightarrow> bool option"

text \<open>
  An edit operation as the request gives it: \<open>type\<close> and \<open>position\<close> are read with
  \<open>op.get\<close>, the two options with \<open>options.get\<close>, so each may be absent.
\<close>

record op_options =
  is_regex :: "bool option"
  preserve_format :: "bool option"

record edit_op =
  op_type :: "string option"
  target :: string
  content :: string
  position :: "string option"
  options :: op_options

text \<open>\<open>f.readlines()\<close>: the lines of the text, each with its line end.\<close>

fun readlines_from :: "string \<Rightarrow> string \<Rightarrow> string list" where
  "readlines_from cur [] = (if cur = [] then [] else [cur])"
| "readlines_from cur (c # cs) =
     (if c = NL then (cur @ [c]) # readlines_from [] cs else readlines_from (cur @ [c]) cs)"

definition readlines :: "string \<Rightarrow> string list" where
  "readlines s = readlines_from [] s"

text \<open>\<open>xs.insert(i, x)\<close> for \<open>i \<ge> 0\<close>: past the end it appends.\<close>

definition list_insert :: "'a list \<Rightarrow> nat \<Rightarrow> 'a \<Rightarrow> 'a list" where
  "list_insert xs i x = take i xs @ [x] @ drop i xs"

subsection \<open>\<open>_replace_content\<close>\<close>

fun replace_loop ::
  "regex \<Rightarrow> bool \<Rightarrow> string \<Rightarrow> string \<Rightarrow> string list \<Rightarrow> string list \<Rightarrow> nat \<Rightarrow> string option
     \<Rightarrow> error + (string list \<times> nat \<times> string option)" where
  "replace_loop re rx tgt new_content [] new_lines modified_count old_content =
     Inr (new_lines, modified_count, old_content)"
| "replace_loop re rx tgt new_content (line # lines) new_lines modified_count old_content =
     (if rx then
        (case re_findall re tgt line of
           None \<Rightarrow> Inl RegexError
         | Some matches \<Rightarrow>
             if matches \<noteq> [] then
               (case re_sub re tgt new_content line of
                  None \<Rightarrow> Inl RegexError
                | Some line' \<Rightarrow>
                    replace_loop re rx tgt new_content lines (new_lines @ [line'])
                      (modified_count + length matches) (Some line))
             else replace_loop re rx tgt new_content lines (new_lines @ [line])
                    modified_count old_content)
      else if contains tgt line then
        replace_loop re rx tgt new_content lines
          (new_lines @ [str_replace line tgt new_content])
          (modified_count + str_count line tgt) (Some line)
      else replace_loop re rx tgt new_content lines (new_lines @ [line])
             modified_count old_content)"

definition replace_content ::
  "regex \<Rightarrow> string list \<Rightarrow> string \<Rightarrow> string \<Rightarrow> op_options
     \<Rightarrow> error + (string list \<times> nat \<times> string option)" where
  "replace_content re lines tgt new_content opts =
     replace_loop re (get_default (is_regex opts) False) tgt new_content lines [] 0 None"

subsection \<open>\<open>_insert_content\<close>\<close>

fun insert_loop ::
  "regex \<Rightarrow> bool \<Rightarrow> string \<Rightarrow> string \<Rightarrow> string \<Rightarrow> nat \<Rightarrow> string list \<Rightarrow> string list \<Rightarrow> bool
     \<Rightarrow> error + (string list \<times> bool)" where
  "insert_loop re rx tgt cnt pos i [] new_lines changed = Inr (new_lines, changed)"
| "insert_loop re rx tgt cnt pos i (line # lines) new_lines changed =
     (case (if rx then re_search re tgt line else Some (contains tgt line)) of
        None \<Rightarrow> Inl RegexError
      | Some match \<Rightarrow>
          if match then
            insert_loop re rx tgt cnt pos (Suc i) lines
              (if pos = ''before'' then list_insert (new_lines @ [line]) i (cnt @ [NL])
               else list_insert (new_lines @ [line]) (i + 1) (cnt @ [NL]))
              True
          else insert_loop re rx tgt cnt pos (Suc i) lines (new_lines @ [line]) changed)"

definition insert_content ::
  "regex \<Rightarrow> string list \<Rightarrow> string \<Rightarrow> string \<Rightarrow> string \<Rightarrow> op_options
     \<Rightarrow> error + (string list \<times> bool)" where
  "insert_content re lines tgt cnt pos opts =
     insert_loop re (get_default (is_regex opts) False) tgt cnt pos 0 lines [] False"

subsection \<open>\<open>_rewrite_content\<close>\<close>

text \<open>
  \<open>re.findall(r'(\*\*.*?\*\*|_.*?_|`.*?`)', line)\<close>, a pattern of the program itself:
  a marker opens with \<open>**\<close>, \<open>_\<close> or a backquote and runs to the nearest closing
  delimiter on the same line. \<open>upto_delim d s\<close> is the shortest prefix of \<open>s\<close> that ends
  with \<open>d\<close> and has no line end before it.
\<close>

fun upto_delim :: "string \<Rightarrow> string \<Rightarrow> string option" where
  "upto_delim d [] = (if d = [] then Some [] else None)"
| "upto_delim d (c # cs) =
     (if startswith (c # cs) d then Some d
      else if c = NL then None
      else map_option ((#) c) (upto_delim d cs))"

definition marker_at :: "string \<Rightarrow> string option" where
  "marker_at s =
     (if startswith s ''**'' then map_option ((@) ''**'') (upto_delim ''**'' (drop 2 s))
      else if startswith s ''_'' then map_option ((@) ''_'') (upto_delim ''_'' (drop 1 s))
      else if startswith s ''`'' then map_option ((@) ''`'') (upto_delim ''`'' (drop 1 s))
      else None)"

text \<open>The scan of \<open>findall\<close>; the first argument counts the characters of the last match still to skip.\<close>

fun markers_from :: "nat \<Rightarrow> string \<Rightarrow> string list" where
  "markers_from k [] = []"
| "markers_from (Suc k) (c # cs) = markers_from k cs"
| "markers_from 0 (c # cs) =
     (case marker_at (c # cs) of
        Some m \<Rightarrow> m # markers_from (length m - 1) cs
      | None \<Rightarrow> markers_from 0 cs)"

definition md_elements :: "string \<Rightarrow> string list" where
  "md_elements line = markers_from 0 line"

text \<open>The loop \<open>for elem in md_elements: if elem in new_line: new_line = new_line.replace(elem, elem)\<close>.\<close>

fun preserve_markers :: "string list \<Rightarrow> string \<Rightarrow> string" where
  "preserve_markers [] new_line = new_line"
| "preserve_markers (elem # elems) new_line =
     preserve_markers elems
       (if contains elem new_line then str_replace new_line elem elem else new_line)"

fun rewrite_loop ::
  "bool \<Rightarrow> string \<Rightarrow> string \<Rightarrow> string list \<Rightarrow> string list \<Rightarrow> bool \<Rightarrow> string option
     \<Rightarrow> string list \<times> bool \<times> string option" where
  "rewrite_loop pf tgt new_content [] new_lines changed old_content =
     (new_lines, changed, old_content)"
| "rewrite_loop pf tgt new_content (line # lines) new_lines changed old_content =
     (if contains tgt line \<and> pf then
        rewrite_loop pf tgt new_content lines
          (new_lines @ [str_replace line tgt (preserve_markers (md_elements line) new_content)])
          True (Some line)
      else if contains tgt line then
        rewrite_loop pf tgt new_content lines (new_lines @ [new_content]) True (Some line)
      else rewrite_loop pf tgt new_content lines (new_lines @ [line]) changed old_content)"

definition rewrite_content ::
  "string list \<Rightarrow> string \<Rightarrow> string \<Rightarrow> op_options \<Rightarrow> string list \<times> bool \<times> string option" where
  "rewrite_content lines tgt new_content opts =
     rewrite_loop (get_default (preserve_format opts) True) tgt new_content lines [] False None"

subsection \<open>\<open>_process_operations\<close>\<close>

record detail =
  d_type :: "string option"
  d_target :: string
  d_content :: string
  d_position :: "string option"
  d_old_content :: "string option"
  d_modified_count :: "nat option"
  d_line_number :: "nat option"

record edit_result =
  edited_path :: string
  modified :: bool
  modified_positions :: nat
  details :: "detail list"

text \<open>The re-scan that records a line number after a changed operation.\<close>

fun line_number_loop ::
  "string option \<Rightarrow> string \<Rightarrow> string \<Rightarrow> nat \<Rightarrow> string list \<Rightarrow> nat option \<Rightarrow> nat option" where
  "line_number_loop ty tgt cnt i [] ln = ln"
| "line_number_loop ty tgt cnt i (line # lines) ln =
     line_number_loop ty tgt cnt (Suc i) lines
       (if ty = Some ''replace'' \<and> contains tgt line then Some (i + 1)
        else if ty = Some ''insert'' \<and> contains cnt line then Some (i + 1)
        else ln)"

text \<open>
  One operation: the dispatch on the type, giving the new buffer, \<open>changed\<close> and the
  detail record before the line number is added.
\<close>

definition apply_operation ::
  "regex \<Rightarrow> edit_op \<Rightarrow> string list \<Rightarrow> error + (string list \<times> bool \<times> detail)" where
  "apply_operation re op new_content =
     (let pos = get_default (position op) ''after'';
          d = \<lparr>d_type = op_type op, d_target = target op, d_content = content op,
               d_position = (if op_type op = Some ''insert'' then Some pos else None),
               d_old_content = None, d_modified_count = None, d_line_number = None\<rparr>
      in if op_type op = Some ''replace'' then
           (case replace_content re new_content (target op) (content op) (options op) of
              Inl e \<Rightarrow> Inl e
            | Inr (new_content', modified_count, old_content) \<Rightarrow>
                Inr (new_content', modified_count > 0,
                     d\<lparr>d_old_content := (if modified_count > 0 then old_content else None),
                       d_modified_count := Some modified_count\<rparr>))
         else if op_type op = Some ''insert'' then
           (case insert_content re new_content (target op) (content op) pos (options op) of
              Inl e \<Rightarrow> Inl e
            | Inr (new_content', changed) \<Rightarrow> Inr (new_content', changed, d))
         else if op_type op = Some ''rewrite'' then
           (case rewrite_content new_content (target op) (content op) (options op) of
              (new_content', changed, old_content) \<Rightarrow>
                Inr (new_content', changed,
                     d\<lparr>d_old_content := (if changed then old_content else None)\<rparr>))
         else Inl (UnknownOperation (op_type op)))"

text \<open>The loop over the operations; an exception leaves the loop with the world as it is then.\<close>

fun operations_loop ::
  "regex \<Rightarrow> string \<Rightarrow> edit_op list \<Rightarrow> string list \<Rightarrow> bool \<Rightarrow> detail list \<Rightarrow> world
     \<Rightarrow> (error + (string list \<times> bool \<times> detail list)) \<times> world" where
  "operations_loop re file_path [] new_content modif operation_details w =
     (Inr (new_content, modif, operation_details), w)"
| "operations_loop re file_path (op # ops) new_content modif operation_details w =
     (case apply_operation re op new_content of
        Inl e \<Rightarrow> (Inl e, w)
      | Inr (new_content', changed, d) \<Rightarrow>
          if changed then
            (let d' = d\<lparr>d_line_number :=
                         line_number_loop (op_type op) (target op) (content op) 0 new_content' None\<rparr>;
                 w' = w\<lparr>edit_log := edit_log w @
                         [\<lparr>log_file_path = file_path, log_operation_type = op_type op,
                           log_target = target op, log_new_content = content op,
                           log_line_number = d_line_number d'\<rparr>]\<rparr>
             in operations_loop re file_path ops new_content' True (operation_details @ [d']) w')
          else operations_loop re file_path ops new_content' modif (operation_details @ [d]) w)"

text \<open>The sum that becomes \<open>modified_positions\<close>.\<close>

definition count_positions :: "detail list \<Rightarrow> nat" where
  "count_positions operation_details =
     sum_list (map (\<lambda>d. get_default (d_modified_count d) 0)
                 (filter (\<lambda>d. d_type d = Some ''replace'' \<and> d_old_content d \<noteq> None)
                    operation_details))"

definition process_operations ::
  "regex \<Rightarrow> string \<Rightarrow> edit_op list \<Rightarrow> world \<Rightarrow> edit_result response \<times> world" where
  "process_operations re file_path operations w =
     (if \<not> os_exists w file_path then (Failed (FileNotFound file_path), w)
      else
        (case os_read w file_path of
           (Inl e, w1) \<Rightarrow> (Failed e, w1)
         | (Inr text, w1) \<Rightarrow>
             (case operations_loop re file_path operations (readlines text) False [] w1 of
                (Inl e, w2) \<Rightarrow> (Failed e, w2)
              | (Inr (new_content, modif, operation_details), w2) \<Rightarrow>
                  (case (if modif then os_write w2 file_path (concat new_content)
                         else Inr w2) of
                     Inl e \<Rightarrow> (Failed e, w2)
                   | Inr w3 \<Rightarrow>
                       (Success \<lparr>edited_path = file_path, modified = modif,
                                 modified_positions = count_positions operation_details,
                                 details = operation_details\<rparr>, w3)))))"

section \<open>Markup to document converter\<close>

text \<open>
  \<open>line.split('|')\<close> for a one-character separator, and the slice \<open>[1:-1]\<close>.
\<close>

fun split_on :: "char \<Rightarrow> string \<Rightarrow> string list" where
  "split_on sep [] = [[]]"
| "split_on sep (c # cs) =
     (if c = sep then [] # split_on sep cs
      else (case split_on sep cs of [] \<Rightarrow> [[c]] | x # xs \<Rightarrow> (c # x) # xs))"

definition inner_slice :: "'a list \<Rightarrow> 'a list" where
  "inner_slice xs = butlast (tl xs)"

text \<open>\<open>line.lstrip('#')\<close>\<close>

definition lstrip_hash :: "string \<Rightarrow> string" where
  "lstrip_hash s = dropWhile (\<lambda>c. c = CHR ''#'') s"

text \<open>
  \<open>os.path.dirname\<close> and \<open>os.path.join\<close> (POSIX): the head up to the last slash, without
  trailing slashes unless it is all slashes; the second path alone when it is absolute.
\<close>

definition dirname :: "string \<Rightarrow> string" where
  "dirname p =
     (let head = rev (dropWhile (\<lambda>c. c \<noteq> CHR ''/'') (rev p)) in
      if head \<noteq> [] \<and> \<not> list_all (\<lambda>c. c = CHR ''/'') head
      then rev (dropWhile (\<lambda>c. c = CHR ''/'') (rev head)) else head)"

definition path_join :: "string \<Rightarrow> string \<Rightarrow> string" where
  "path_join a b =
     (if startswith b ''/'' then b
      else if a = [] \<or> endswith a ''/'' then a @ b
      else a @ ''/'' @ b)"

text \<open>
  \<open>os.path.splitext(name)[0]\<close> on a base name: the name without its last extension; a
  name whose last dot is preceded by dots only has no extension.
\<close>

definition splitext_root :: "string \<Rightarrow> string" where
  "splitext_root name =
     (let ext = takeWhile (\<lambda>c. c \<noteq> CHR ''.'') (rev name);
          root = rev (drop (length ext + 1) (rev name))
      in if CHR ''.'' \<in> set name \<and> \<not> list_all (\<lambda>c. c = CHR ''.'') root then root else name)"

text \<open>
  \<open>re.match(r'!\[.*?\]\((.*?)\)', line)\<close> on a line that starts with \<open>![\<close>: the group
  is the text between the first \<open>](\<close> and the next closing parenthesis.
\<close>

definition image_target :: "string \<Rightarrow> string option" where
  "image_target line =
     (case upto_delim '']('' (drop 2 line) of
        None \<Rightarrow> None
      | Some alt \<Rightarrow>
          map_option butlast (upto_delim '')'' (drop (2 + length alt) line)))"

text \<open>
  The state of the loop of \<open>_markdown_to_word\<close>: the document built so far (a list of
  blocks in the order python-docx appends them), the paragraph \<open>current_para\<close> refers
  to (its index in the document), and the pending table.
\<close>

record conv_state =
  doc :: "block list"
  current_para :: "nat option"
  in_table :: bool
  table_rows :: "string list list"

text \<open>\<open>current_para.add_run(r)\<close>\<close>

definition add_run :: "block list \<Rightarrow> nat \<Rightarrow> string \<Rightarrow> block list" where
  "add_run d i r =
     (if i < length d
      then (case d ! i of Paragraph runs \<Rightarrow> d[i := Paragraph (runs @ [r])] | _ \<Rightarrow> d)
      else d)"

text \<open>
  Every text python-docx puts into the document goes through lxml, which raises
  \<open>ValueError\<close> for a text with a character XML does not allow: a control character
  other than tab, line feed and carriage return.
\<close>

definition xml_ok :: "string \<Rightarrow> bool" where
  "xml_ok t =
     list_all (\<lambda>c. let n = (of_char c :: nat) in n = 9 \<or> n = 10 \<or> n = 13 \<or> 32 \<le> n) t"

text \<open>
  The cells of one table row, assigned in order by \<open>cells[i].text = cell\<close>: the row
  has \<open>cols\<close> cells left, and the assignment raises \<open>IndexError\<close> for a cell past them.
  The cells not assigned stay empty.
\<close>

fun fill_cells :: "nat \<Rightarrow> string list \<Rightarrow> error + string list" where
  "fill_cells cols [] = Inr (replicate cols [])"
| "fill_cells cols (cell # cells) =
     (if cols = 0 then Inl IndexError
      else if \<not> xml_ok cell then Inl (XmlError cell)
      else (case fill_cells (cols - 1) cells of
              Inl e \<Rightarrow> Inl e
            | Inr r \<Rightarrow> Inr (cell # r)))"

fun body_rows :: "nat \<Rightarrow> string list list \<Rightarrow> error + string list list" where
  "body_rows cols [] = Inr []"
| "body_rows cols (row # rows) =
     (case fill_cells cols row of
        Inl e \<Rightarrow> Inl e
      | Inr r \<Rightarrow>
          (case body_rows cols rows of
             Inl e \<Rightarrow> Inl e
           | Inr rs \<Rightarrow> Inr (r # rs)))"

text \<open>
  The end of a table: with more than one pending row, a table with the columns of the
  first row is appended, holding the first row and the rows from index 2 on (index 1 is
  the separator row).
\<close>

definition flush_table :: "string list list \<Rightarrow> block list \<Rightarrow> error + block list" where
  "flush_table rows d =
     (if length rows > 1 then
        (case fill_cells (length (hd rows)) (hd rows) of
           Inl e \<Rightarrow> Inl e
         | Inr header \<Rightarrow>
             (case body_rows (length (hd rows)) (drop 2 rows) of
                Inl e \<Rightarrow> Inl e
              | Inr rs \<Rightarrow> Inr (d @ [Table header rs])))
      else Inr d)"

text \<open>
  One iteration of the loop. \<open>doc.add_heading\<close> raises \<open>ValueError\<close> for a level above
  9, before it sets the text. \<open>doc.add_picture\<close> first appends a paragraph with one
  empty run and then loads the picture into it; \<open>loadable\<close> says for which paths the
  loading succeeds. When it fails the exception is swallowed and the empty paragraph
  stays.
\<close>

definition convert_line ::
  "(string \<Rightarrow> bool) \<Rightarrow> string \<Rightarrow> string \<Rightarrow> conv_state \<Rightarrow> error + conv_state" where
  "convert_line loadable md_path raw_line st =
     (let line = strip raw_line in
      if startswith line ''|'' \<and> endswith line ''|'' then
        Inr (st\<lparr>in_table := True,
                table_rows := (if in_table st then table_rows st else []) @
                              [map strip (inner_slice (split_on (CHR ''|'') line))]\<rparr>)
      else
        (case (if in_table st then
                 (case flush_table (table_rows st) (doc st) of
                    Inl e \<Rightarrow> Inl e
                  | Inr d \<Rightarrow> Inr (st\<lparr>doc := d, in_table := False\<rparr>))
               else Inr st) of
           Inl e \<Rightarrow> Inl e
         | Inr st1 \<Rightarrow>
             if startswith line ''#'' then
               (let level = str_count line ''#'' in
                if level > 9 then Inl (HeadingLevelError level)
                else if \<not> xml_ok (strip (lstrip_hash line))
                then Inl (XmlError (strip (lstrip_hash line)))
                else Inr (st1\<lparr>doc := doc st1 @ [Heading level (strip (lstrip_hash line))]\<rparr>))
             else if startswith line ''!['' then
               (case image_target line of
                  None \<Rightarrow> Inr st1
                | Some href \<Rightarrow>
                    (let image_path = path_join (dirname md_path) href in
                     if loadable image_path
                     then Inr (st1\<lparr>doc := doc st1 @ [Picture image_path]\<rparr>)
                     else Inr (st1\<lparr>doc := doc st1 @ [Paragraph [[]]]\<rparr>)))
             else if line \<noteq> [] then
               (if \<not> xml_ok line then Inl (XmlError line)
                else (case current_para st1 of
                        None \<Rightarrow>
                          Inr (st1\<lparr>doc := doc st1 @ [Paragraph [line]],
                                   current_para := Some (length (doc st1))\<rparr>)
                      | Some i \<Rightarrow> Inr (st1\<lparr>doc := add_run (doc st1) i (NL # line)\<rparr>)))
             else Inr (st1\<lparr>current_para := None\<rparr>)))"

fun convert_lines ::
  "(string \<Rightarrow> bool) \<Rightarrow> string \<Rightarrow> string list \<Rightarrow> conv_state \<Rightarrow> error + conv_state" where
  "convert_lines loadable md_path [] st = Inr st"
| "convert_lines loadable md_path (line # lines) st =
     (case convert_line loadable md_path line st of
        Inl e \<Rightarrow> Inl e
      | Inr st' \<Rightarrow> convert_lines loadable md_path lines st')"

definition initial_state :: conv_state where
  "initial_state = \<lparr>doc = [], current_para = None, in_table = False, table_rows = []\<rparr>"

text \<open>The document the loop leaves: what \<open>doc.save\<close> is given.\<close>

definition built_document :: "error + conv_state \<Rightarrow> error + block list" where
  "built_document r = (case r of Inl e \<Rightarrow> Inl e | Inr st \<Rightarrow> Inr (doc st))"

definition markdown_document ::
  "(string \<Rightarrow> bool) \<Rightarrow> string \<Rightarrow> string list \<Rightarrow> error + block list" where
  "markdown_document loadable md_path lines =
     built_document (convert_lines loadable md_path lines initial_state)"

text \<open>
  \<open>_markdown_to_word\<close>: read the lines, build the document, save it under the base name
  of the markup file in the working directory \<open>cwd\<close>.
\<close>

definition markdown_to_word ::
  "(string \<Rightarrow> bool) \<Rightarrow> string \<Rightarrow> string \<Rightarrow> world \<Rightarrow> (error + string) \<times> world" where
  "markdown_to_word loadable cwd md_path w =
     (case os_read w md_path of
        (Inl e, w1) \<Rightarrow> (Inl e, w1)
      | (Inr stored, w1) \<Rightarrow>
          (case markdown_document loadable md_path (readlines stored) of
             Inl e \<Rightarrow> (Inl e, w1)
           | Inr d \<Rightarrow>
               (let docx_path = path_join cwd (splitext_root (basename md_path) @ ''.docx'')
                in case save_document w1 docx_path d of
                     Inl e \<Rightarrow> (Inl e, w1)
                   | Inr w2 \<Rightarrow> (Inr docx_path, w2))))"

section \<open>Chapter splitter\<close>

text \<open>
  \<open>re.split(r'^#\s+(.+)$', content, flags=re.MULTILINE)\<close>, a pattern of the program
  itself. A match starts at the beginning of a line with \<open>#\<close>; \<open>\s+\<close> is greedy and takes
  whitespace, line ends included; \<open>(.+)\<close> is the rest of the line it stops on and must
  not be empty. \<open>title_at j t\<close> tries \<open>\s+\<close> with \<open>j\<close> characters of \<open>t\<close>, the text
  after \<open>#\<close>, then with fewer, as backtracking does; it gives the group and the text
  after the match.
\<close>

fun title_at :: "nat \<Rightarrow> string \<Rightarrow> (string \<times> string) option" where
  "title_at 0 t = None"
| "title_at (Suc j) t =
     (case drop (Suc j) t of
        [] \<Rightarrow> title_at j t
      | c # cs \<Rightarrow>
          if c = NL then title_at j t
          else Some (takeWhile (\<lambda>x. x \<noteq> NL) (c # cs), dropWhile (\<lambda>x. x \<noteq> NL) (c # cs)))"

definition h1_match :: "string \<Rightarrow> (string \<times> string) option" where
  "h1_match s =
     (case s of
        [] \<Rightarrow> None
      | c # t \<Rightarrow> if c = CHR ''#'' then title_at (length (takeWhile is_space t)) t else None)"

text \<open>
  The scan of \<open>re.split\<close>: \<open>seg\<close> is the text since the last match, \<open>bol\<close> says that the
  position is the beginning of a line, and the first argument counts the characters of
  the match found last that are still to be passed over. The result is the list
  \<open>[before, title 1, between, title 2, ..., rest]\<close>.
\<close>

fun split_from :: "nat \<Rightarrow> bool \<Rightarrow> string \<Rightarrow> string \<Rightarrow> string list" where
  "split_from k bol seg [] = [seg]"
| "split_from (Suc k) bol seg (c # cs) = split_from k False seg cs"
| "split_from 0 bol seg (c # cs) =
     (case (if bol then h1_match (c # cs) else None) of
        Some (title, rest) \<Rightarrow>
          seg # title # split_from (length cs - length rest) False [] cs
      | None \<Rightarrow> split_from 0 (c = NL) (seg @ [c]) cs)"

definition re_split_h1 :: "string \<Rightarrow> string list" where
  "re_split_h1 s = split_from 0 True [] s"

text \<open>
  \<open>re.sub(r'[^\w\-_\. ]', '_', title)\<close>: every character that is not a letter, a digit,
  an underscore, a hyphen, a dot or a space becomes an underscore. The class \<open>\w\<close> is
  given by the code points of its characters below 256.
\<close>

definition is_word :: "char \<Rightarrow> bool" where
  "is_word c =
     (let n = (of_char c :: nat) in
      list_ex (\<lambda>(lo, hi). lo \<le> n \<and> n \<le> hi)
        [(48, 57), (65, 90), (95, 95), (97, 122), (170, 170), (178, 179), (181, 181),
         (185, 186), (188, 190), (192, 214), (216, 246), (248, 255)])"

definition safe_title :: "string \<Rightarrow> string" where
  "safe_title title =
     map (\<lambda>c. if is_word c \<or> c = CHR ''-'' \<or> c = CHR ''.'' \<or> c = CHR '' '' then c
              else CHR ''_'') title"

text \<open>The format \<open>{n:02d}\<close>: the decimal digits of \<open>n\<close>, with a leading zero below ten.\<close>

fun digits :: "nat \<Rightarrow> string" where
  "digits n =
     (if n < 10 then [char_of (48 + n)] else digits (n div 10) @ [char_of (48 + n mod 10)])"

declare digits.simps [simp del]

definition fmt02d :: "nat \<Rightarrow> string" where
  "fmt02d n = (if n < 10 then CHR ''0'' # digits n else digits n)"

text \<open>The text written to a chapter file, and the name of the file.\<close>

definition chapter_text :: "string \<Rightarrow> string \<Rightarrow> string" where
  "chapter_text title body = ''# '' @ title @ [NL, NL] @ body"

definition chapter_filename :: "nat \<Rightarrow> string \<Rightarrow> string" where
  "chapter_filename i title = fmt02d (i div 2 + 1) @ ''-'' @ safe_title title @ ''.md''"

text \<open>
  The loop \<open>for i in range(1, len(sections), 2)\<close>: the third argument is the list of the
  sections from index \<open>i\<close> on, so its head is \<open>sections[i]\<close> and the element after it, if
  there is one, \<open>sections[i+1]\<close>. A chapter file that cannot be opened for writing
  ends the loop with the error of \<open>open\<close>. After a write that succeeded the file
  exists, so the check that follows fails only when something outside the program
  removes the file in between, which the world here does not do.
\<close>

fun chapters_loop ::
  "string \<Rightarrow> nat \<Rightarrow> string list \<Rightarrow> string list \<Rightarrow> world \<Rightarrow> (error + string list) \<times> world" where
  "chapters_loop md_path i [] output_files w = (Inr output_files, w)"
| "chapters_loop md_path i (s # rest) output_files w =
     (let title = strip s;
          body = (case rest of [] \<Rightarrow> [] | b # _ \<Rightarrow> b);
          output_path = path_join (dirname md_path) (chapter_filename i title)
      in case os_write w output_path (chapter_text title body) of
           Inl e \<Rightarrow> (Inl e, w)
         | Inr w' \<Rightarrow>
             if \<not> os_exists w' output_path then (Inl (WriteNotVerified output_path), w')
             else chapters_loop md_path (i + 2) (drop 1 rest) (output_files @ [output_path]) w')"

record split_result =
  split_files :: "string list"
  chapter_total :: nat

definition split_markdown :: "string \<Rightarrow> world \<Rightarrow> split_result response \<times> world" where
  "split_markdown md_path w =
     (if \<not> os_exists w md_path then (Failed (FileNotFound md_path), w)
      else
        (case os_read w md_path of
           (Inl e, w1) \<Rightarrow> (Failed e, w1)
         | (Inr stored, w1) \<Rightarrow>
             (let sections = re_split_h1 stored in
              case chapters_loop md_path 1 (drop 1 sections) [] w1 of
                (Inl e, w2) \<Rightarrow> (Failed e, w2)
              | (Inr output_files, w2) \<Rightarrow>
                  (Success \<lparr>split_files = output_files,
                            chapter_total = length sections div 2\<rparr>, w2))))"

section \<open>Notions used to state the properties of the editor\<close>

text \<open>The operation types the editor knows.\<close>

definition known_type :: "string option \<Rightarrow> bool" where
  "known_type ty = (ty = Some ''replace'' \<or> ty = Some ''insert'' \<or> ty = Some ''rewrite'')"

text \<open>
  The number of matches of a replace operation's target in one line: what
  \<open>re.findall\<close> finds for a pattern, the occurrences \<open>str.count\<close> counts for a literal
  target. The match count of the operation is the sum over the lines of the buffer it
  is applied to.
\<close>

definition line_matches :: "regex \<Rightarrow> op_options \<Rightarrow> string \<Rightarrow> string \<Rightarrow> nat" where
  "line_matches re opts tgt line =
     (if get_default (is_regex opts) False
      then (case re_findall re tgt line of None \<Rightarrow> 0 | Some matches \<Rightarrow> length matches)
      else str_count line tgt)"

definition match_count :: "regex \<Rightarrow> edit_op \<Rightarrow> string list \<Rightarrow> nat" where
  "match_count re op buffer =
     sum_list (map (line_matches re (options op) (target op)) buffer)"

text \<open>
  The sum of the match counts of the replace operations of a batch, each taken on the
  buffer as the operations before it have left it; the other operations add nothing.
\<close>

fun replace_matches_total :: "regex \<Rightarrow> edit_op list \<Rightarrow> string list \<Rightarrow> nat" where
  "replace_matches_total re [] buffer = 0"
| "replace_matches_total re (op # ops) buffer =
     (if op_type op = Some ''replace'' then match_count re op buffer else 0) +
     (case apply_operation re op buffer of
        Inl e \<Rightarrow> 0
      | Inr (buffer', changed, d) \<Rightarrow> replace_matches_total re ops buffer')"

text \<open>What one detail record adds to \<open>count_positions\<close>.\<close>

definition contribution :: "detail \<Rightarrow> nat" where
  "contribution d =
     (if d_type d = Some ''replace'' \<and> d_old_content d \<noteq> None
      then get_default (d_modified_count d) 0 else 0)"

section \<open>Notions used to state the properties of the converter\<close>

text \<open>The first line classifier of the loop: a pipe-delimited table row.\<close>

definition table_row :: "string \<Rightarrow> bool" where
  "table_row l = (startswith (strip l) ''|'' \<and> endswith (strip l) ''|'')"

text \<open>Every picture can be embedded.\<close>

definition always_loadable :: "string \<Rightarrow> bool" where
  "always_loadable p = True"

text \<open>A heading, a blank line and a table of one body row.\<close>

definition heading_and_table :: "string list" where
  "heading_and_table =
     [''# T'' @ [NL], [NL], ''| a | b |'' @ [NL], ''|---|---|'' @ [NL], ''| 1 | 2 |'' @ [NL]]"

section \<open>Notions used to state the properties of the splitter\<close>

text \<open>
  The lines of a text, without their line ends (the text split at every \<open>\n\<close>), and
  the text of a list of lines.
\<close>

definition lines_of :: "string \<Rightarrow> string list" where
  "lines_of s = split_on NL s"

fun join_lines :: "string list \<Rightarrow> string" where
  "join_lines [] = []"
| "join_lines [l] = l"
| "join_lines (l # l' # ls) = l @ NL # join_lines (l' # ls)"

text \<open>
  A top-level heading line, as the pattern of the splitter takes it when the match
  stays on the line: \<open>#\<close>, at least one whitespace character, and a title that is not
  blank. A line of \<open>#\<close> and whitespace only is a heading line without title.
\<close>

definition h1_line :: "string \<Rightarrow> bool" where
  "h1_line l = (startswith l ''#'' \<and> (case tl l of [] \<Rightarrow> False | c # _ \<Rightarrow> is_space c)
                \<and> \<not> list_all is_space (tl l))"

definition blank_hash :: "string \<Rightarrow> bool" where
  "blank_hash l = (startswith l ''#'' \<and> list_all is_space (tl l))"


text \<open>
  The chapters of a document given by its lines: each heading line with the text that
  follows it, from the end of the heading line up to the next heading line. The
  preamble is the text before the first heading line.
\<close>

definition body_after :: "string list \<Rightarrow> string" where
  "body_after ls =
     concat (map (\<lambda>x. NL # x) (takeWhile (\<lambda>x. \<not> h1_line x) ls)) @
     (if list_ex h1_line ls then [NL] else [])"

fun chunks :: "string list \<Rightarrow> (string \<times> string) list" where
  "chunks [] = []"
| "chunks (l # ls) = (if h1_line l then (l, body_after ls) # chunks ls else chunks ls)"

definition preamble :: "string list \<Rightarrow> string" where
  "preamble ls =
     (if list_ex h1_line ls
      then concat (map (\<lambda>x. x @ [NL]) (takeWhile (\<lambda>x. \<not> h1_line x) ls))
      else join_lines ls)"

text \<open>The sections \<open>re.split\<close> gives for the chapters: the group of each heading and its text.\<close>

definition raw_sections :: "(string \<times> string) list \<Rightarrow> string list" where
  "raw_sections cs = concat (map (\<lambda>(h, b). [dropWhile is_space (tl h), b]) cs)"

text \<open>The number a string of decimal digits stands for.\<close>

definition digit_val :: "char \<Rightarrow> nat" where
  "digit_val c = of_char c - 48"

definition num_of :: "string \<Rightarrow> nat" where
  "num_of s = foldl (\<lambda>a c. 10 * a + digit_val c) 0 s"

text \<open>
  The file of the \<open>n\<close>-th chapter with heading line \<open>h\<close>, the files of a list of
  chapters numbered from \<open>n\<close> with their texts, and the world after writing them.
\<close>

definition chapter_path :: "string \<Rightarrow> nat \<Rightarrow> string \<Rightarrow> string" where
  "chapter_path md_path n h =
     path_join (dirname md_path) (fmt02d n @ ''-'' @ safe_title (strip (tl h)) @ ''.md'')"

fun expected_files ::
  "string \<Rightarrow> nat \<Rightarrow> (string \<times> string) list \<Rightarrow> (string \<times> string) list" where
  "expected_files md_path n [] = []"
| "expected_files md_path n ((h, b) # cs) =
     (chapter_path md_path n h, chapter_text (strip (tl h)) b) #
     expected_files md_path (Suc n) cs"

definition write_all :: "(string \<times> string) list \<Rightarrow> world \<Rightarrow> world" where
  "write_all pcs w = foldl (\<lambda>w (p, c). written w p c) w pcs"

text \<open>The paths of the chapter files of a document: what the splitter opens for writing.\<close>

definition chapter_paths :: "string \<Rightarrow> string \<Rightarrow> string list" where
  "chapter_paths md_path stored =
     map fst (expected_files md_path 1 (chunks (lines_of stored)))"


section \<open>Sample worlds and requests\<close>

text \<open>
  Concrete inputs on which the theorems below are instantiated. In a plain world every
  path string names a file of its own, every file there is can be read, and a path can
  be opened for writing unless it is empty or its last component is empty or longer than
  255 characters.
\<close>

definition plain_writable :: "string \<Rightarrow> bool" where
  "plain_writable p = (p \<noteq> [] \<and> basename p \<noteq> [] \<and> length (basename p) \<le> 255)"

definition plain_world :: "(string \<rightharpoonup> string) \<Rightarrow> world" where
  "plain_world fs =
     \<lparr>files = fs, documents = Map.empty, file_of = (\<lambda>p. p), unreadable = (\<lambda>f. False),
      writable = plain_writable, reads = [], edit_log = []\<rparr>"

definition empty_world :: world where
  "empty_world = plain_world Map.empty"

definition two_files_world :: world where
  "two_files_world =
     plain_world [''a.md'' \<mapsto> ''A'', ''b.txt'' \<mapsto> ''B'']"

text \<open>A regex library that refuses every pattern, and a request without options.\<close>

definition no_regex :: regex where
  "no_regex = \<lparr>re_findall = (\<lambda>p s. None), re_sub = (\<lambda>p r s. None),
               re_search = (\<lambda>p s. None)\<rparr>"

definition default_options :: op_options where
  "default_options = \<lparr>is_regex = None, preserve_format = None\<rparr>"

definition sample_world :: world where
  "sample_world =
     plain_world [''f.md'' \<mapsto> ''foo foo'' @ [NL] @ ''x'' @ [NL]]"

definition replace_foo :: edit_op where
  "replace_foo = \<lparr>op_type = Some ''replace'', target = ''foo'', content = ''bar'',
                  position = None, options = default_options\<rparr>"

definition delete_x :: edit_op where
  "delete_x = \<lparr>op_type = Some ''delete'', target = ''x'', content = [],
               position = None, options = default_options\<rparr>"

definition insert_after_x :: edit_op where
  "insert_after_x = \<lparr>op_type = Some ''insert'', target = ''x'', content = ''new'',
                     position = None, options = default_options\<rparr>"

definition one_replace_result :: "error + (string list \<times> bool \<times> detail list)" where
  "one_replace_result =
     Inr ([''bar bar'' @ [NL], ''x'' @ [NL]], True,
          [\<lparr>d_type = Some ''replace'', d_target = ''foo'', d_content = ''bar'',
            d_position = None, d_old_content = Some (''foo foo'' @ [NL]),
            d_modified_count = Some 2, d_line_number = None\<rparr>])"

definition replace_insert_result :: edit_result where
  "replace_insert_result =
     \<lparr>edited_path = ''f.md'', modified = True, modified_positions = 2,
      details =
        [\<lparr>d_type = Some ''replace'', d_target = ''foo'', d_content = ''bar'',
          d_position = None, d_old_content = Some (''foo foo'' @ [NL]),
          d_modified_count = Some 2, d_line_number = None\<rparr>,
         \<lparr>d_type = Some ''insert'', d_target = ''x'', d_content = ''new'',
          d_position = Some ''after'', d_old_content = None,
          d_modified_count = None, d_line_number = Some 3\<rparr>]\<rparr>"

definition three_lines :: "string list" where
  "three_lines = [''a'' @ [NL], ''b'' @ [NL], ''a'' @ [NL]]"

definition plain_options :: op_options where
  "plain_options = \<lparr>is_regex = None, preserve_format = Some False\<rparr>"





text \<open>A document whose only line is a heading with a title of 250 characters.\<close>

definition long_heading :: string where
  "long_heading = ''# '' @ replicate 250 (CHR ''a'')"

section \<open>Properties of the text primitives\<close>

lemma contains_empty: "contains [] s"
  by (cases s) auto

lemma count_from_absent: "\<not> contains t s \<Longrightarrow> count_from 0 t s = 0"
  by (induction s) auto

lemma replace_from_absent: "\<not> contains t s \<Longrightarrow> replace_from 0 t r s = s"
  by (induction s) auto

lemma str_count_absent: "\<not> contains t s \<Longrightarrow> str_count s t = 0"
  using contains_empty by (auto simp: str_count_def count_from_absent)

lemma str_replace_absent: "\<not> contains t s \<Longrightarrow> str_replace s t r = s"
  using contains_empty by (auto simp: str_replace_def replace_from_absent)

lemma startswith_take: "startswith s t \<Longrightarrow> t @ drop (length t) s = s"
  by (induction s t rule: startswith.induct) auto

text \<open>Replacing a text by itself changes nothing.\<close>

lemma replace_from_same: "r = t \<Longrightarrow> t \<noteq> [] \<Longrightarrow> replace_from k t r s = drop k s"
proof (induction k t r s rule: replace_from.induct)
  case (3 t r c cs)
  show ?case
  proof (cases "startswith (c # cs) t")
    case True
    from startswith_take[OF True] 3(4) have "t @ drop (length t - 1) cs = c # cs"
      by (cases t) auto
    with 3 True show ?thesis by simp
  next
    case False
    with 3 show ?thesis by simp
  qed
qed simp_all

lemma concat_singletons: "concat (map (\<lambda>c. [c]) s) = s"
  by (induction s) auto

lemma str_replace_same: "str_replace s t t = s"
  by (simp add: str_replace_def replace_from_same concat_singletons)

section \<open>Properties of the chapter merger\<close>

lemma validate_paths_invalid:
  "\<exists>p \<in> set ps. \<not> os_exists w (absp p) \<or> \<not> endswith (lower (absp p)) ''.md''
     \<Longrightarrow> \<exists>p \<in> set ps. validate_paths absp w ps = Inl (FileNotFound (absp p))
                      \<or> validate_paths absp w ps = Inl (NotMarkdown (absp p))"
proof (induction ps)
  case Nil
  then show ?case by simp
next
  case (Cons p ps)
  show ?case
  proof (cases "\<not> os_exists w (absp p) \<or> \<not> endswith (lower (absp p)) ''.md''")
    case True
    then show ?thesis by (auto simp: Let_def)
  next
    case False
    with Cons.prems
    have "\<exists>q \<in> set ps. \<not> os_exists w (absp q) \<or> \<not> endswith (lower (absp q)) ''.md''"
      by auto
    from Cons.IH[OF this] obtain q where "q \<in> set ps"
      and "validate_paths absp w ps = Inl (FileNotFound (absp q))
           \<or> validate_paths absp w ps = Inl (NotMarkdown (absp q))"
      by blast
    with False show ?thesis by (auto simp: Let_def)
  qed
qed

text \<open>
  Claim C1, as the code has it: an empty list of file paths is not rejected. No path is
  validated and no file is read. If the output path can be opened for writing, the
  output file is written, with empty content, and the response is a success that
  reports zero merged chapters; if it cannot, the merge fails with the error of that
  \<open>open\<close> and nothing is written.
\<close>

theorem merge_empty_list_not_rejected:
  "merger_call absp (Some (PathList [])) output_path w =
     (if writable w (get_default output_path ''merged.md'')
      then (Success \<lparr>merged_path = absp (get_default output_path ''merged.md''),
                     merged_total = 0, merged_files = []\<rparr>,
            written w (get_default output_path ''merged.md'') [])
      else (Failed (WriteError (get_default output_path ''merged.md'')), w))"
  by (simp add: merger_call_def merge_chapters_def os_write_def)

theorem merge_empty_list_not_rejected_witness:
  "writable empty_world ''merged.md''
   \<and> merger_call id (Some (PathList [])) None empty_world =
       (Success \<lparr>merged_path = ''merged.md'', merged_total = 0, merged_files = []\<rparr>,
        written empty_world ''merged.md'' [])
   \<and> files (written empty_world ''merged.md'' []) ''merged.md'' = Some []
   \<and> \<not> writable empty_world []
   \<and> merger_call id (Some (PathList [])) (Some []) empty_world =
       (Failed (WriteError []), empty_world)"
proof -
  have a: "writable empty_world ''merged.md''"
    by (simp add: empty_world_def plain_world_def plain_writable_def basename_def)
  have b: "\<not> writable empty_world []"
    by (simp add: empty_world_def plain_world_def plain_writable_def)
  have c: "merger_call id (Some (PathList [])) None empty_world =
       (Success \<lparr>merged_path = ''merged.md'', merged_total = 0, merged_files = []\<rparr>,
        written empty_world ''merged.md'' [])"
    using merge_empty_list_not_rejected[of id None empty_world] a
    by (simp add: get_default_def)
  have d: "files (written empty_world ''merged.md'' []) ''merged.md'' = Some []"
    by (simp add: written_def empty_world_def plain_world_def)
  have e: "merger_call id (Some (PathList [])) (Some []) empty_world =
       (Failed (WriteError []), empty_world)"
    using merge_empty_list_not_rejected[of id "Some []" empty_world] b
    by (simp add: get_default_def)
  show ?thesis by (rule conjI[OF a conjI[OF c conjI[OF d conjI[OF b e]]]])
qed

text \<open>
  Claim C1 as stated (an empty list fails and no output file is produced) does not
  hold: in a directory without files, where \<open>merged.md\<close> can be opened for writing, the
  merge of the empty list succeeds and creates \<open>merged.md\<close>.
\<close>

theorem merge_empty_list_counterexample:
  "\<not> (is_failed (fst (merger_call id (Some (PathList [])) (Some ''merged.md'') empty_world))
      \<and> files (snd (merger_call id (Some (PathList [])) (Some ''merged.md'') empty_world))
           ''merged.md'' = None)"
  by (simp add: merger_call_def merge_chapters_def os_write_def written_def get_default_def
      empty_world_def plain_world_def plain_writable_def basename_def)

text \<open>
  Claim C8: the merge validates every path before it reads or writes anything. If some
  path of the list does not exist, or does not end in \<open>.md\<close> (compared in lower case,
  as the code does), the merge fails with an error that names an offending path, and
  the world is the one before the call: no file was read and none was written.
\<close>

theorem merge_validates_before_io:
  assumes "\<exists>p \<in> set ps. \<not> os_exists w (absp p) \<or> \<not> endswith (lower (absp p)) ''.md''"
  shows "\<exists>p \<in> set ps.
           merge_chapters absp (PathList ps) output_path w = (Inl (FileNotFound (absp p)), w)
         \<or> merge_chapters absp (PathList ps) output_path w = (Inl (NotMarkdown (absp p)), w)"
  using validate_paths_invalid[OF assms] by (auto simp: merge_chapters_def)

theorem merge_validates_before_io_witness:
  "(\<exists>p \<in> set [''a.md'', ''b.txt''].
      \<not> os_exists two_files_world (id p) \<or> \<not> endswith (lower (id p)) ''.md'')
   \<and> merge_chapters id (PathList [''a.md'', ''b.txt'']) ''merged.md'' two_files_world =
       (Inl (NotMarkdown ''b.txt''), two_files_world)"
  using merge_validates_before_io[of "[''a.md'', ''b.txt'']" two_files_world id "''merged.md''"]
  by (simp add: two_files_world_def plain_world_def os_exists_def endswith_def lower_def
      lower_char_def merge_chapters_def)

section \<open>Properties of the structured editor\<close>

subsection \<open>Replace\<close>

lemma replace_loop_literal:
  "\<not> rx \<Longrightarrow> replace_loop re rx tgt cnt lines acc n old0 =
      Inr (acc @ map (\<lambda>l. str_replace l tgt cnt) lines,
           n + sum_list (map (\<lambda>l. str_count l tgt) lines),
           foldl (\<lambda>old l. if contains tgt l then Some l else old) old0 lines)"
  by (induction lines arbitrary: acc n old0) (auto simp: str_replace_absent str_count_absent)

text \<open>
  Claim C6: a replace operation with a literal target replaces every occurrence of the
  target on every line (the occurrences of \<open>str.replace\<close> and \<open>str.count\<close>: found from
  the left, not overlapping) and reports as \<open>modified_count\<close> the total number of
  occurrences over all lines. In particular \<open>foo\<close> to \<open>bar\<close> on the buffer
  \<open>["foo foo\n"]\<close> gives \<open>["bar bar\n"]\<close> and the count 2.
\<close>

theorem replace_literal_all_occurrences:
  "(is_regex opts \<noteq> Some True \<longrightarrow>
      (\<exists>old. replace_content re lines tgt cnt opts =
         Inr (map (\<lambda>line. str_replace line tgt cnt) lines,
              sum_list (map (\<lambda>line. str_count line tgt) lines), old)))
   \<and> replace_content re [''foo foo'' @ [NL]] ''foo'' ''bar'' default_options =
         Inr ([''bar bar'' @ [NL]], 2, Some (''foo foo'' @ [NL]))"
proof -
  have "\<not> get_default (is_regex opts) False" if "is_regex opts \<noteq> Some True"
    using that by (cases "is_regex opts") (auto simp: get_default_def)
  then have "is_regex opts \<noteq> Some True \<longrightarrow>
      (\<exists>old. replace_content re lines tgt cnt opts =
         Inr (map (\<lambda>line. str_replace line tgt cnt) lines,
              sum_list (map (\<lambda>line. str_count line tgt) lines), old))"
    by (simp add: replace_content_def replace_loop_literal)
  moreover have "replace_content re [''foo foo'' @ [NL]] ''foo'' ''bar'' default_options =
         Inr ([''bar bar'' @ [NL]], 2, Some (''foo foo'' @ [NL]))"
    by (simp add: replace_content_def default_options_def get_default_def NL_def
        str_replace_def str_count_def)
  ultimately show ?thesis by blast
qed

theorem replace_literal_all_occurrences_witness:
  "is_regex default_options \<noteq> Some True
   \<and> (\<exists>old. replace_content no_regex [''foo foo'' @ [NL], ''x'' @ [NL], ''a foo''] ''foo'' ''bar''
               default_options =
         Inr ([''bar bar'' @ [NL], ''x'' @ [NL], ''a bar''], 3, old))"
  using replace_literal_all_occurrences[of default_options no_regex
      "[''foo foo'' @ [NL], ''x'' @ [NL], ''a foo'']" "''foo''" "''bar''"]
  by (simp add: default_options_def str_replace_def str_count_def NL_def numeral_3_eq_3)

subsection \<open>Insert\<close>

text \<open>
  Claim C2 at a buffer with two matching lines: with \<open>position = "after"\<close> the line for
  the first match follows it, but the line for the second match is put before the
  matched line, not after it. The loop indexes the growing list \<open>new_lines\<close> with the
  index of the original buffer.
\<close>

theorem insert_after_second_match_misplaced:
  "insert_content re three_lines ''a'' ''X'' ''after'' default_options =
     Inr ([''a'' @ [NL], ''X'' @ [NL], ''b'' @ [NL], ''X'' @ [NL], ''a'' @ [NL]], True)"
  by (simp add: insert_content_def three_lines_def default_options_def get_default_def
      list_insert_def NL_def)

lemma insert_loop_no_match:
  "\<not> rx \<Longrightarrow> \<forall>x \<in> set pre. \<not> contains tgt x \<Longrightarrow>
   insert_loop re rx tgt cnt pos i (pre @ ls) acc ch =
     insert_loop re rx tgt cnt pos (i + length pre) ls (acc @ pre) ch"
  by (induction pre arbitrary: i acc) auto

lemma take_list_insert:
  "k \<le> i \<Longrightarrow> k \<le> length xs \<Longrightarrow> take k (list_insert xs i x) = take k xs"
  by (simp add: list_insert_def min_def)

lemma insert_loop_after_prefix:
  "\<not> rx \<Longrightarrow> pos \<noteq> ''before'' \<Longrightarrow> k \<le> i + 1 \<Longrightarrow> k \<le> length acc \<Longrightarrow>
   \<exists>res ch'. insert_loop re rx tgt cnt pos i ls acc ch = Inr (res, ch')
       \<and> take k res = take k acc \<and> (ch \<longrightarrow> ch')"
proof (induction ls arbitrary: i acc ch)
  case Nil
  then show ?case by simp
next
  case (Cons line ls)
  show ?case
  proof (cases "contains tgt line")
    case True
    define acc2 where "acc2 = list_insert (acc @ [line]) (i + 1) (cnt @ [NL])"
    have t: "take k acc2 = take k acc"
      unfolding acc2_def using Cons.prems by (simp add: take_list_insert)
    have "k \<le> Suc i + 1" "k \<le> length acc2"
      using Cons.prems by (simp_all add: acc2_def list_insert_def)
    from Cons.IH[OF Cons.prems(1,2) this, of True] t True Cons.prems(1,2)
    show ?thesis by (auto simp: acc2_def)
  next
    case False
    have "k \<le> Suc i + 1" "k \<le> length (acc @ [line])" using Cons.prems by simp_all
    from Cons.IH[OF Cons.prems(1,2) this, of ch] False Cons.prems(1,4)
    show ?thesis by auto
  qed
qed

text \<open>
  What the insert operation does get right: with a literal target and a position other
  than \<open>before\<close>, the line for the first matching line of the buffer directly follows
  it, whatever comes later.
\<close>

theorem insert_after_first_match:
  assumes "is_regex opts \<noteq> Some True" "pos \<noteq> ''before''"
    and "\<forall>x \<in> set pre. \<not> contains tgt x" "contains tgt l"
  shows "\<exists>rest. insert_content re (pre @ l # post) tgt cnt pos opts =
           Inr (pre @ l # (cnt @ [NL]) # rest, True)"
proof -
  have rx: "\<not> get_default (is_regex opts) False"
    using assms(1) by (cases "is_regex opts") (auto simp: get_default_def)
  define acc where "acc = pre @ [l, cnt @ [NL]]"
  have "insert_content re (pre @ l # post) tgt cnt pos opts =
        insert_loop re False tgt cnt pos (length pre) (l # post) pre False"
    using rx insert_loop_no_match[of False pre tgt re cnt pos 0 "l # post" "[]" False] assms(3)
    by (simp add: insert_content_def)
  also have "\<dots> = insert_loop re False tgt cnt pos (Suc (length pre)) post acc True"
    using assms(2,4) by (simp add: list_insert_def acc_def)
  finally have e: "insert_content re (pre @ l # post) tgt cnt pos opts =
      insert_loop re False tgt cnt pos (Suc (length pre)) post acc True" .
  have "\<exists>res ch'. insert_loop re False tgt cnt pos (Suc (length pre)) post acc True
          = Inr (res, ch')
        \<and> take (length acc) res = take (length acc) acc \<and> (True \<longrightarrow> ch')"
    using assms(2) by (intro insert_loop_after_prefix) (simp_all add: acc_def)
  then obtain res ch' where r: "insert_loop re False tgt cnt pos (Suc (length pre)) post acc True
      = Inr (res, ch')" "take (length acc) res = take (length acc) acc" "ch'" by auto
  from r(2) have "res = acc @ drop (length acc) res"
    by (metis append_take_drop_id take_all order_refl)
  with e r(1,3) show ?thesis by (auto simp: acc_def)
qed

theorem insert_after_first_match_witness:
  "is_regex default_options \<noteq> Some True \<and> ''after'' \<noteq> ''before''
   \<and> list_all (\<lambda>x. \<not> contains ''a'' x) [''b'' @ [NL]] \<and> contains ''a'' (''a'' @ [NL])
   \<and> (\<exists>rest. insert_content no_regex
                 ([''b'' @ [NL]] @ (''a'' @ [NL]) # [''c'' @ [NL], ''a'' @ [NL]])
                 ''a'' ''X'' ''after'' default_options =
               Inr ([''b'' @ [NL]] @ (''a'' @ [NL]) # (''X'' @ [NL]) # rest, True))"
proof -
  have a: "is_regex default_options \<noteq> Some True" by (simp add: default_options_def)
  have b: "''after'' \<noteq> ''before''" by simp
  have c: "\<forall>x \<in> set [''b'' @ [NL]]. \<not> contains ''a'' x" by (simp add: NL_def)
  have c': "list_all (\<lambda>x. \<not> contains ''a'' x) [''b'' @ [NL]]" using c by (simp only: list_all_iff)
  have d: "contains ''a'' (''a'' @ [NL])" by simp
  note t = insert_after_first_match[OF a b c d, of no_regex "[''c'' @ [NL], ''a'' @ [NL]]" "''X''"]
  show ?thesis by (rule conjI[OF a conjI[OF b conjI[OF c' conjI[OF d t]]]])
qed

subsection \<open>Rewrite\<close>

lemma preserve_markers_id: "preserve_markers elems new_line = new_line"
  by (induction elems arbitrary: new_line) (auto simp: str_replace_same)

lemma rewrite_loop_plain:
  "fst (rewrite_loop False tgt cnt lines acc ch old) =
     acc @ map (\<lambda>l. if contains tgt l then cnt else l) lines"
  by (induction lines arbitrary: acc ch old) auto

lemma rewrite_loop_preserve:
  "fst (rewrite_loop True tgt cnt lines acc ch old) =
     acc @ map (\<lambda>l. if contains tgt l then str_replace l tgt cnt else l) lines"
  by (induction lines arbitrary: acc ch old) (auto simp: preserve_markers_id)

text \<open>
  Claim C9: with \<open>preserve_format\<close> false, every line that contains the target becomes
  \<open>content\<close>, whole, and the other lines stay. The marker-preservation step returns the
  replacement text as it is, whatever markers the line has; so with \<open>preserve_format\<close>
  true or absent, a line that contains the target has its occurrences of the target
  replaced by \<open>content\<close> unchanged.
\<close>

theorem rewrite_whole_line_or_noop_markers:
  "(preserve_format opts = Some False \<longrightarrow>
      fst (rewrite_content lines tgt cnt opts) =
        map (\<lambda>line. if contains tgt line then cnt else line) lines)
   \<and> preserve_markers (md_elements line) cnt = cnt
   \<and> (preserve_format opts' \<noteq> Some False \<longrightarrow>
      fst (rewrite_content lines tgt cnt opts') =
        map (\<lambda>line. if contains tgt line then str_replace line tgt cnt else line) lines)"
proof -
  have "get_default (preserve_format opts') True" if "preserve_format opts' \<noteq> Some False"
    using that by (cases "preserve_format opts'") (auto simp: get_default_def)
  then show ?thesis
    by (auto simp: rewrite_content_def get_default_def rewrite_loop_plain rewrite_loop_preserve
        preserve_markers_id)
qed

theorem rewrite_whole_line_or_noop_markers_witness:
  "preserve_format plain_options = Some False
   \<and> fst (rewrite_content [''a **b** foo'' @ [NL], ''x'' @ [NL]] ''foo'' ''**b** z'' plain_options)
       = [''**b** z'', ''x'' @ [NL]]
   \<and> preserve_format default_options \<noteq> Some False
   \<and> fst (rewrite_content [''a **b** foo'' @ [NL], ''x'' @ [NL]] ''foo'' ''**b** z'' default_options)
       = [''a **b** **b** z'' @ [NL], ''x'' @ [NL]]"
  using rewrite_whole_line_or_noop_markers[of plain_options
      "[''a **b** foo'' @ [NL], ''x'' @ [NL]]" "''foo''" "''**b** z''" "[]" default_options]
  by (simp add: plain_options_def default_options_def str_replace_def NL_def)

subsection \<open>The batch\<close>

lemma apply_operation_unknown:
  "\<not> known_type (op_type op) \<Longrightarrow> apply_operation re op buffer = Inl (UnknownOperation (op_type op))"
  by (simp add: apply_operation_def known_type_def Let_def)

lemma operations_loop_step:
  assumes "apply_operation re op buffer = Inr (b1, ch, d)"
  shows "\<exists>m1 ds1 w1. files w1 = files w \<and>
     (\<forall>ops. operations_loop re fp (op # ops) buffer m ds w = operations_loop re fp ops b1 m1 ds1 w1)"
proof (cases ch)
  case True
  define ln where "ln = line_number_loop (op_type op) (target op) (content op) 0 b1 None"
  define w1 where "w1 = w\<lparr>edit_log := edit_log w @
       [\<lparr>log_file_path = fp, log_operation_type = op_type op, log_target = target op,
         log_new_content = content op, log_line_number = ln\<rparr>]\<rparr>"
  have "files w1 = files w" by (simp add: w1_def)
  moreover have "\<forall>ops. operations_loop re fp (op # ops) buffer m ds w =
      operations_loop re fp ops b1 True (ds @ [d\<lparr>d_line_number := ln\<rparr>]) w1"
    using assms True by (simp add: Let_def ln_def w1_def)
  ultimately show ?thesis by blast
next
  case False
  have "\<forall>ops. operations_loop re fp (op # ops) buffer m ds w =
      operations_loop re fp ops b1 m (ds @ [d]) w"
    using assms False by simp
  then show ?thesis by blast
qed

lemma operations_loop_files:
  "files (snd (operations_loop re fp ops buffer m ds w)) = files w"
proof (induction ops arbitrary: buffer m ds w)
  case Nil
  show ?case by simp
next
  case (Cons op ops)
  show ?case
  proof (cases "apply_operation re op buffer")
    case (Inl e)
    then show ?thesis by simp
  next
    case (Inr res)
    obtain b1 ch d where "res = (b1, ch, d)" by (cases res) auto
    with Inr have "apply_operation re op buffer = Inr (b1, ch, d)" by simp
    from operations_loop_step[OF this, of w fp m ds] obtain m1 ds1 w1 where
      f: "files w1 = files w" and
      s: "operations_loop re fp (op # ops) buffer m ds w = operations_loop re fp ops b1 m1 ds1 w1"
      by blast
    show ?thesis unfolding s using Cons.IH[of b1 m1 ds1 w1] f by simp
  qed
qed

lemma operations_loop_unknown_fails:
  assumes "\<not> known_type (op_type bad)"
  shows "isl (fst (operations_loop re fp (pre @ bad # post) buffer m ds w))"
proof (induction pre arbitrary: buffer m ds w)
  case Nil
  from assms show ?case by (simp add: apply_operation_unknown)
next
  case (Cons op pre)
  show ?case
  proof (cases "apply_operation re op buffer")
    case (Inl e)
    then show ?thesis by simp
  next
    case (Inr res)
    obtain b1 ch d where "res = (b1, ch, d)" by (cases res) auto
    with Inr have "apply_operation re op buffer = Inr (b1, ch, d)" by simp
    from operations_loop_step[OF this, of w fp m ds] obtain m1 ds1 w1 where
      s: "operations_loop re fp (op # (pre @ bad # post)) buffer m ds w =
          operations_loop re fp (pre @ bad # post) b1 m1 ds1 w1"
      by blast
    show ?thesis using s Cons.IH[of b1 m1 ds1 w1] by simp
  qed
qed

lemma operations_loop_unknown_stops:
  assumes "\<not> known_type (op_type bad)"
  shows "operations_loop re fp (pre @ bad # post) buffer m ds w =
         operations_loop re fp (pre @ [bad]) buffer m ds w"
proof (induction pre arbitrary: buffer m ds w)
  case Nil
  from assms show ?case by (simp add: apply_operation_unknown)
next
  case (Cons op pre)
  show ?case
  proof (cases "apply_operation re op buffer")
    case (Inl e)
    then show ?thesis by simp
  next
    case (Inr res)
    obtain b1 ch d where "res = (b1, ch, d)" by (cases res) auto
    with Inr have "apply_operation re op buffer = Inr (b1, ch, d)" by simp
    from operations_loop_step[OF this, of w fp m ds] obtain m1 ds1 w1 where
      s: "\<And>ops. operations_loop re fp (op # ops) buffer m ds w =
          operations_loop re fp ops b1 m1 ds1 w1"
      by blast
    have "operations_loop re fp ((op # pre) @ bad # post) buffer m ds w =
          operations_loop re fp (pre @ bad # post) b1 m1 ds1 w1"
      using s[of "pre @ bad # post"] by simp
    also have "\<dots> = operations_loop re fp (pre @ [bad]) b1 m1 ds1 w1"
      by (rule Cons.IH)
    also have "\<dots> = operations_loop re fp ((op # pre) @ [bad]) buffer m ds w"
      using s[of "pre @ [bad]"] by simp
    finally show ?thesis .
  qed
qed

lemma os_read_result:
  "(\<exists>e. os_read w p = (Inl e, w))
   \<or> (\<exists>c. os_read w p = (Inr c, w\<lparr>reads := reads w @ [p]\<rparr>) \<and> text_file w p c)"
  by (auto simp: os_read_def text_file_def split: option.splits)

text \<open>
  Claim C4: an operation whose type is none of replace, insert and rewrite aborts the
  batch. Whatever the operations before it did to the buffer, the response is a failure,
  the files are the ones before the call (nothing is written), and the operations after
  it play no part: the outcome is that of the batch cut after the unknown operation.
\<close>

theorem unknown_operation_aborts_batch:
  assumes "\<not> known_type (op_type bad)"
  shows "is_failed (fst (process_operations re fp (pre @ bad # post) w))
       \<and> files (snd (process_operations re fp (pre @ bad # post) w)) = files w
       \<and> process_operations re fp (pre @ bad # post) w =
           process_operations re fp (pre @ [bad]) w"
proof -
  from os_read_result[of w fp] show ?thesis
  proof (elim disjE exE conjE)
    fix e assume "os_read w fp = (Inl e, w)"
    then show ?thesis by (simp add: process_operations_def)
  next
    fix stored assume rd: "os_read w fp = (Inr stored, w\<lparr>reads := reads w @ [fp]\<rparr>)"
    define w1 where "w1 = w\<lparr>reads := reads w @ [fp]\<rparr>"
    define res where
      "res = operations_loop re fp (pre @ bad # post) (readlines stored) False [] w1"
    have eq: "operations_loop re fp (pre @ [bad]) (readlines stored) False [] w1 = res"
      unfolding res_def by (rule operations_loop_unknown_stops[OF assms, symmetric])
    have "isl (fst res)"
      unfolding res_def by (rule operations_loop_unknown_fails[OF assms])
    then obtain e w2 where r: "res = (Inl e, w2)"
      by (cases res; cases "fst res") auto
    have "files (snd res) = files w"
      unfolding res_def by (simp add: operations_loop_files w1_def)
    with r have f2: "files w2 = files w" by simp
    have p1: "process_operations re fp (pre @ bad # post) w =
        (if os_exists w fp then (Failed e, w2) else (Failed (FileNotFound fp), w))"
      using rd r[unfolded res_def] by (simp add: process_operations_def w1_def)
    have p2: "process_operations re fp (pre @ [bad]) w =
        (if os_exists w fp then (Failed e, w2) else (Failed (FileNotFound fp), w))"
      using rd r eq by (simp add: process_operations_def w1_def)
    from p1 p2 f2 show ?thesis by simp
  qed
qed

theorem unknown_operation_aborts_batch_witness:
  "\<not> known_type (op_type delete_x)
   \<and> fst (operations_loop no_regex ''f.md'' [replace_foo]
             (readlines (''foo foo'' @ [NL] @ ''x'' @ [NL])) False [] sample_world)
       = one_replace_result
   \<and> fst (process_operations no_regex ''f.md'' [replace_foo, delete_x, insert_after_x] sample_world)
       = Failed (UnknownOperation (Some ''delete''))
   \<and> files (snd (process_operations no_regex ''f.md'' [replace_foo, delete_x, insert_after_x]
                    sample_world)) ''f.md''
       = Some (''foo foo'' @ [NL] @ ''x'' @ [NL])"
proof -
  have h: "\<not> known_type (op_type delete_x)"
    by (simp add: known_type_def delete_x_def)
  have e: "fst (process_operations no_regex ''f.md'' [replace_foo, delete_x] sample_world)
       = Failed (UnknownOperation (Some ''delete''))"
    by code_simp
  have l: "fst (operations_loop no_regex ''f.md'' [replace_foo]
             (readlines (''foo foo'' @ [NL] @ ''x'' @ [NL])) False [] sample_world)
       = one_replace_result"
    by code_simp
  note t = unknown_operation_aborts_batch[OF h, of no_regex "''f.md''" "[replace_foo]"
      "[insert_after_x]" sample_world, unfolded append.simps]
  have a: "fst (process_operations no_regex ''f.md''
      [replace_foo, delete_x, insert_after_x] sample_world) = Failed (UnknownOperation (Some ''delete''))"
    by (simp only: t[THEN conjunct2, THEN conjunct2] e)
  have "files (snd (process_operations no_regex ''f.md''
      [replace_foo, delete_x, insert_after_x] sample_world)) ''f.md'' = files sample_world ''f.md''"
    by (rule fun_cong[OF t[THEN conjunct2, THEN conjunct1]])
  also have "\<dots> = Some (''foo foo'' @ [NL] @ ''x'' @ [NL])"
    by (simp add: sample_world_def plain_world_def)
  finally have b: "files (snd (process_operations no_regex ''f.md''
      [replace_foo, delete_x, insert_after_x] sample_world)) ''f.md''
       = Some (''foo foo'' @ [NL] @ ''x'' @ [NL])" .
  show ?thesis by (rule conjI[OF h conjI[OF l conjI[OF a b]]])
qed


lemma replace_loop_count:
  "replace_loop re (get_default (is_regex opts) False) tgt cnt lines acc n old = Inr (nl, n', old')
   \<Longrightarrow> (0 < n \<longrightarrow> old \<noteq> None)
   \<Longrightarrow> n' = n + sum_list (map (line_matches re opts tgt) lines) \<and> (0 < n' \<longrightarrow> old' \<noteq> None)"
proof (induction lines arbitrary: acc n old)
  case Nil
  then show ?case by simp
next
  case (Cons line lines)
  show ?case
  proof (cases "get_default (is_regex opts) False")
    case True
    with Cons.prems(1) obtain ms where ms: "re_findall re tgt line = Some ms"
      by (auto split: option.splits)
    show ?thesis
    proof (cases "ms = []")
      case True
      with Cons.prems \<open>get_default (is_regex opts) False\<close> ms
      have "replace_loop re (get_default (is_regex opts) False) tgt cnt lines (acc @ [line]) n old
              = Inr (nl, n', old')" by simp
      from Cons.IH[OF this Cons.prems(2)] True ms \<open>get_default (is_regex opts) False\<close>
      show ?thesis by (simp add: line_matches_def)
    next
      case False
      with Cons.prems(1) \<open>get_default (is_regex opts) False\<close> ms
      obtain line' where
        "replace_loop re (get_default (is_regex opts) False) tgt cnt lines (acc @ [line'])
           (n + length ms) (Some line) = Inr (nl, n', old')"
        by (auto split: option.splits)
      from Cons.IH[OF this] ms \<open>get_default (is_regex opts) False\<close>
      show ?thesis by (simp add: line_matches_def)
    qed
  next
    case False
    note lit = this
    show ?thesis
    proof (cases "contains tgt line")
      case True
      with Cons.prems(1) lit
      have "replace_loop re (get_default (is_regex opts) False) tgt cnt lines
              (acc @ [str_replace line tgt cnt]) (n + str_count line tgt) (Some line)
            = Inr (nl, n', old')" by simp
      from Cons.IH[OF this] lit show ?thesis by (simp add: line_matches_def)
    next
      case False
      with Cons.prems(1) lit
      have "replace_loop re (get_default (is_regex opts) False) tgt cnt lines (acc @ [line]) n old
            = Inr (nl, n', old')" by simp
      from Cons.IH[OF this Cons.prems(2)] lit False
      show ?thesis by (simp add: line_matches_def str_count_absent)
    qed
  qed
qed

lemma count_positions_snoc:
  "count_positions (ds @ [d]) = count_positions ds + contribution d"
  by (auto simp: count_positions_def contribution_def)

lemma apply_operation_contribution:
  assumes "apply_operation re op buffer = Inr (buffer', changed, d)"
  shows "contribution (d\<lparr>d_line_number := ln\<rparr>) =
           (if op_type op = Some ''replace'' then match_count re op buffer else 0)"
proof (cases "op_type op = Some ''replace''")
  case True
  with assms obtain n old where
    rc: "replace_content re buffer (target op) (content op) (options op) = Inr (buffer', n, old)"
    and d: "d_type d = Some ''replace''" "d_modified_count d = Some n"
          "d_old_content d = (if 0 < n then old else None)"
    by (auto simp: apply_operation_def Let_def split: sum.splits)
  from replace_loop_count[OF rc[unfolded replace_content_def]]
  have "n = match_count re op buffer" "0 < n \<longrightarrow> old \<noteq> None"
    by (simp_all add: match_count_def)
  with d True show ?thesis by (auto simp: contribution_def get_default_def)
next
  case False
  with assms have "d_type d \<noteq> Some ''replace''"
    by (auto simp: apply_operation_def Let_def split: sum.splits if_splits prod.splits)
  with False show ?thesis by (simp add: contribution_def)
qed

lemma operations_loop_positions:
  "operations_loop re fp ops buffer m ds w = (Inr (buffer', m', ds'), w')
   \<Longrightarrow> count_positions ds' = count_positions ds + replace_matches_total re ops buffer"
proof (induction ops arbitrary: buffer m ds w)
  case Nil
  then show ?case by simp
next
  case (Cons op ops)
  from Cons.prems obtain b1 ch d where ap: "apply_operation re op buffer = Inr (b1, ch, d)"
    by (auto split: sum.splits)
  show ?case
  proof (cases ch)
    case True
    define ln where "ln = line_number_loop (op_type op) (target op) (content op) 0 b1 None"
    from Cons.prems ap True obtain w1 where
      "operations_loop re fp ops b1 True (ds @ [d\<lparr>d_line_number := ln\<rparr>]) w1 = (Inr (buffer', m', ds'), w')"
      by (auto simp: Let_def ln_def)
    from Cons.IH[OF this] apply_operation_contribution[OF ap, of ln] ap
    show ?thesis by (simp add: count_positions_snoc)
  next
    case False
    with Cons.prems ap have
      "operations_loop re fp ops b1 m (ds @ [d]) w = (Inr (buffer', m', ds'), w')"
      by simp
    from Cons.IH[OF this] apply_operation_contribution[OF ap, of "d_line_number d"] ap
    show ?thesis by (simp add: count_positions_snoc)
  qed
qed

text \<open>
  Claim C7: for a batch that completes, \<open>modified_positions\<close> is the sum of the match
  counts of its replace operations, each counted on the buffer the operation is applied
  to; insert and rewrite operations add nothing to it.
\<close>

theorem modified_positions_sums_replace_matches:
  assumes "fst (process_operations re fp ops w) = Success r"
  shows "\<exists>stored. text_file w fp stored
           \<and> modified_positions r = replace_matches_total re ops (readlines stored)"
proof -
  from os_read_result[of w fp] show ?thesis
  proof (elim disjE exE conjE)
    fix e assume "os_read w fp = (Inl e, w)"
    with assms show ?thesis by (simp add: process_operations_def split: if_splits)
  next
    fix stored
    assume rd: "os_read w fp = (Inr stored, w\<lparr>reads := reads w @ [fp]\<rparr>)"
      and tf: "text_file w fp stored"
    from assms rd obtain nc m ds w2 where
      "operations_loop re fp ops (readlines stored) False [] (w\<lparr>reads := reads w @ [fp]\<rparr>)
         = (Inr (nc, m, ds), w2)"
      and "modified_positions r = count_positions ds"
      by (auto simp: process_operations_def split: if_splits sum.splits prod.splits)
    with operations_loop_positions[OF this(1)] tf show ?thesis
      by (auto simp: count_positions_def)
  qed
qed

theorem modified_positions_sums_replace_matches_witness:
  "fst (process_operations no_regex ''f.md'' [replace_foo, insert_after_x] sample_world)
     = Success replace_insert_result
   \<and> (\<exists>stored. text_file sample_world ''f.md'' stored
         \<and> modified_positions replace_insert_result =
             replace_matches_total no_regex [replace_foo, insert_after_x] (readlines stored))
   \<and> modified_positions replace_insert_result = 2"
proof -
  have h: "fst (process_operations no_regex ''f.md'' [replace_foo, insert_after_x] sample_world)
     = Success replace_insert_result"
    by code_simp
  have m: "modified_positions replace_insert_result = 2"
    by (simp add: replace_insert_result_def)
  from modified_positions_sums_replace_matches[OF h] h m show ?thesis by simp
qed

section \<open>Properties of the markup to document converter\<close>

text \<open>
  Claim C3 at the line \<open># C# basics\<close>: the line has one leading \<open>#\<close>, and the heading
  is emitted at level 2, since \<open>line.count('#')\<close> counts every \<open>#\<close> of the line.
\<close>

theorem heading_level_counts_every_hash:
  "markdown_document loadable md_path [''# C# basics'' @ [NL]] = Inr [Heading 2 ''C# basics'']"
  by (simp add: markdown_document_def built_document_def initial_state_def convert_line_def
      strip_def lstrip_def rstrip_def is_space_def NL_def endswith_def str_count_def
      lstrip_hash_def xml_ok_def Let_def)

lemma convert_table_row:
  "table_row l \<Longrightarrow> \<exists>st'. convert_line loadable p l st = Inr st' \<and> doc st' = doc st"
  by (simp add: convert_line_def table_row_def Let_def)

lemma convert_table_rows:
  "\<forall>l \<in> set tbl. table_row l \<Longrightarrow>
   \<exists>st'. convert_lines loadable p tbl st = Inr st' \<and> doc st' = doc st"
proof (induction tbl arbitrary: st)
  case Nil
  then show ?case by simp
next
  case (Cons l tbl)
  then have "table_row l" by simp
  from convert_table_row[OF this, of loadable p st]
  obtain st1 where s: "convert_line loadable p l st = Inr st1" "doc st1 = doc st" by blast
  from Cons.IH[of st1] Cons.prems obtain st' where
    "convert_lines loadable p tbl st1 = Inr st'" "doc st' = doc st1" by auto
  with s show ?case by simp
qed

lemma convert_lines_append:
  "convert_lines loadable p (xs @ ys) st =
     (case convert_lines loadable p xs st of
        Inl e \<Rightarrow> Inl e
      | Inr st' \<Rightarrow> convert_lines loadable p ys st')"
  by (induction xs arbitrary: st) (auto split: sum.splits)

text \<open>
  Claim C10: table rows that run to the last line of the input leave no trace in the
  document. Whatever precedes them, the document built from the input with these rows
  at its end is the document built from the input without them (or the same failure): a
  pending table is flushed only by a later line that is not a table row, and nothing
  flushes it after the loop.
\<close>

theorem trailing_table_never_emitted:
  assumes "\<forall>l \<in> set tbl. table_row l"
  shows "markdown_document loadable p (pre @ tbl) = markdown_document loadable p pre"
proof (cases "convert_lines loadable p pre initial_state")
  case (Inl e)
  then show ?thesis by (simp add: markdown_document_def convert_lines_append)
next
  case (Inr st)
  from convert_table_rows[OF assms, of loadable p st] obtain st' where
    "convert_lines loadable p tbl st = Inr st'" "doc st' = doc st" by blast
  with Inr show ?thesis
    by (simp add: markdown_document_def convert_lines_append built_document_def)
qed

theorem trailing_table_never_emitted_witness:
  "list_all table_row (drop 2 heading_and_table)
   \<and> markdown_document always_loadable ''x.md''
         (take 2 heading_and_table @ drop 2 heading_and_table)
       = Inr [Heading 1 ''T'']
   \<and> markdown_document always_loadable ''x.md'' (heading_and_table @ [''end''])
       = Inr [Heading 1 ''T'', Table [''a'', ''b''] [[''1'', ''2'']], Paragraph [''end'']]"
proof -
  have h: "\<forall>l \<in> set (drop 2 heading_and_table). table_row l"
    by code_simp
  have a: "markdown_document always_loadable ''x.md'' (take 2 heading_and_table) =
      Inr [Heading 1 ''T'']"
    by code_simp
  have b: "markdown_document always_loadable ''x.md'' (heading_and_table @ [''end''])
       = Inr [Heading 1 ''T'', Table [''a'', ''b''] [[''1'', ''2'']], Paragraph [''end'']]"
    by code_simp
  have c: "list_all table_row (drop 2 heading_and_table)"
    using h by (simp only: list_all_iff)
  from trailing_table_never_emitted[OF h, of always_loadable "''x.md''"
      "take 2 heading_and_table"] a
  have "markdown_document always_loadable ''x.md''
          (take 2 heading_and_table @ drop 2 heading_and_table)
       = Inr [Heading 1 ''T'']" by (simp only:)
  with c b show ?thesis by (intro conjI)
qed

section \<open>Properties of the chapter splitter\<close>

lemma split_on_nonempty: "split_on sep s \<noteq> []"
  by (induction s) (auto split: list.splits)

lemma join_lines_Cons: "ls \<noteq> [] \<Longrightarrow> join_lines (l # ls) = l @ NL # join_lines ls"
  by (cases ls) auto

lemma join_lines_of: "join_lines (lines_of s) = s"
proof (induction s)
  case Nil
  show ?case by (simp add: lines_of_def)
next
  case (Cons c s)
  show ?case
  proof (cases "c = NL")
    case True
    with Cons show ?thesis
      by (simp add: lines_of_def join_lines_Cons split_on_nonempty)
  next
    case False
    obtain l ls where r: "split_on NL s = l # ls"
      using split_on_nonempty[of NL s] by (cases "split_on NL s") auto
    with Cons False show ?thesis
      by (cases ls) (auto simp: lines_of_def)
  qed
qed

lemma lines_of_no_NL: "l \<in> set (lines_of s) \<Longrightarrow> NL \<notin> set l"
proof (induction s arbitrary: l)
  case Nil
  then show ?case by (simp add: lines_of_def)
next
  case (Cons c s)
  obtain x xs where r: "split_on NL s = x # xs"
    using split_on_nonempty[of NL s] by (cases "split_on NL s") auto
  have x: "NL \<notin> set x" and xs: "\<And>y. y \<in> set xs \<Longrightarrow> NL \<notin> set y"
    using Cons.IH r by (auto simp: lines_of_def)
  from Cons.prems r x xs show ?case
    by (auto simp: lines_of_def split: if_splits)
qed

lemma split_from_skip: "split_from (length cs) b seg (cs @ r) = split_from 0 b seg r \<or> cs \<noteq> [] \<and>
    split_from (length cs) b seg (cs @ r) = split_from 0 False seg r"
  by (induction cs arbitrary: b) auto

lemma split_from_line: "NL \<notin> set l \<Longrightarrow> split_from 0 False seg (l @ r) = split_from 0 False (seg @ l) r"
  by (induction l arbitrary: seg) auto

lemma h1_match_NL: "h1_match (NL # r) = None"
  by (simp add: h1_match_def NL_def)

lemma split_from_NL: "split_from 0 b seg (NL # r) = split_from 0 True (seg @ [NL]) r"
  by (simp add: h1_match_NL)


lemma take_drop_line:
  assumes "NL \<notin> set v" "r = [] \<or> (\<exists>m. r = NL # m)"
  shows "takeWhile (\<lambda>x. x \<noteq> NL) (v @ r) = v" "dropWhile (\<lambda>x. x \<noteq> NL) (v @ r) = r"
  using assms by (induction v) auto

lemma title_at_in_line:
  assumes "ws \<noteq> []" "x \<noteq> NL" "NL \<notin> set u" "r = [] \<or> (\<exists>m. r = NL # m)"
  shows "title_at (length ws) (ws @ x # u @ r) = Some (x # u, r)"
proof -
  obtain m where m: "length ws = Suc m" using assms(1) by (cases ws) auto
  have d: "drop (Suc m) (ws @ x # u @ r) = x # u @ r"
    using m by (metis append_eq_conv_conj)
  have "NL \<notin> set (x # u)" using assms by simp
  from take_drop_line[OF this assms(4)] d m assms(2) show ?thesis by simp
qed

lemma h1_match_line:
  assumes "NL \<notin> set l" "\<not> blank_hash l" "r = [] \<or> (\<exists>m. r = NL # m)"
  shows "h1_match (l @ r) = (if h1_line l then Some (dropWhile is_space (tl l), r) else None)"
proof (cases l)
  case Nil
  with assms(3) show ?thesis by (auto simp: h1_match_def h1_line_def NL_def)
next
  case (Cons c t)
  show ?thesis
  proof (cases "c = CHR ''#''")
    case False
    with Cons show ?thesis by (simp add: h1_match_def h1_line_def)
  next
    case True
    with assms(2) Cons have ns: "\<not> list_all is_space t" by (simp add: blank_hash_def)
    define ws where "ws = takeWhile is_space t"
    obtain x u where xu: "dropWhile is_space t = x # u"
      using ns by (cases "dropWhile is_space t") (auto simp: list_all_iff)
    have t: "t = ws @ x # u" unfolding ws_def xu[symmetric] by simp
    have nx: "\<not> is_space x" using xu by (metis hd_dropWhile list.sel(1) list.distinct(1))
    have tw: "takeWhile is_space (t @ r) = ws"
      unfolding t using nx ws_def t
      by (metis append.assoc append_Cons set_takeWhileD takeWhile_tail)
    have xNL: "x \<noteq> NL" "NL \<notin> set u" using assms(1) Cons t by auto
    show ?thesis
    proof (cases "ws = []")
      case True
      with t nx tw Cons \<open>c = CHR ''#''\<close> show ?thesis
        by (simp add: h1_match_def h1_line_def)
    next
      case False
      then obtain w ws' where w: "ws = w # ws'" by (cases ws) auto
      have "is_space w" using w ws_def by (metis list.set_intros(1) set_takeWhileD)
      with t w ns have h: "h1_line l" using Cons True by (simp add: h1_line_def)
      from title_at_in_line[OF False xNL assms(3)] tw t
      have "title_at (length (takeWhile is_space (t @ r))) (t @ r) = Some (x # u, r)" by simp
      with h Cons True xu show ?thesis by (simp add: h1_match_def)
    qed
  qed
qed


lemma join_lines_plain: "\<not> list_ex h1_line ls \<Longrightarrow> ls \<noteq> [] \<Longrightarrow>
    NL # join_lines ls = concat (map (\<lambda>x. NL # x) ls)"
proof (induction ls)
  case Nil
  then show ?case by simp
next
  case (Cons l ls)
  then show ?case by (cases ls) auto
qed

lemma preamble_heading: "h1_line l \<Longrightarrow> preamble (l # ls) = []"
  by (simp add: preamble_def)

lemma preamble_plain:
  "\<not> h1_line l \<Longrightarrow> ls \<noteq> [] \<Longrightarrow> preamble (l # ls) = l @ NL # preamble ls"
  by (simp add: preamble_def join_lines_Cons)

lemma preamble_single: "\<not> h1_line l \<Longrightarrow> preamble [l] = l"
  by (simp add: preamble_def)

lemma body_after_preamble: "body_after ls = (if ls = [] then [] else NL # preamble ls)"
proof (induction ls)
  case Nil
  show ?case by (simp add: body_after_def)
next
  case (Cons l ls)
  show ?case
  proof (cases "h1_line l")
    case True
    then show ?thesis by (simp add: body_after_def preamble_def)
  next
    case False
    show ?thesis
    proof (cases "ls = []")
      case True
      with False show ?thesis by (simp add: body_after_def preamble_def)
    next
      case ne: False
      from Cons ne have "body_after ls = NL # preamble ls" by simp
      with False ne show ?thesis
        by (simp add: preamble_plain) (simp add: body_after_def)
    qed
  qed
qed

lemma split_from_lines:
  assumes "ls \<noteq> []" "\<forall>l \<in> set ls. NL \<notin> set l \<and> \<not> blank_hash l"
  shows "split_from 0 True seg (join_lines ls) = (seg @ preamble ls) # raw_sections (chunks ls)"
  using assms
proof (induction ls arbitrary: seg)
  case Nil
  then show ?case by simp
next
  case (Cons l ls)
  from Cons.prems have l: "NL \<notin> set l" "\<not> blank_hash l" by auto
  define r where "r = (if ls = [] then [] else NL # join_lines ls)"
  have j: "join_lines (l # ls) = l @ r"
    by (simp add: r_def join_lines_Cons)
  have r: "r = [] \<or> (\<exists>m. r = NL # m)" by (simp add: r_def)
  note m = h1_match_line[OF l r]
  have tail: "split_from 0 False s r =
      (if ls = [] then [s] else (s @ NL # preamble ls) # raw_sections (chunks ls))" for s
  proof (cases "ls = []")
    case True
    then show ?thesis by (simp add: r_def)
  next
    case False
    with Cons.prems have "\<forall>l \<in> set ls. NL \<notin> set l \<and> \<not> blank_hash l" by simp
    from Cons.IH[OF False this, of "s @ [NL]"] False show ?thesis
      by (simp add: r_def split_from_NL)
  qed
  show ?case
  proof (cases "h1_line l")
    case True
    then obtain c cs where lc: "l = c # cs" by (cases l) (auto simp: h1_line_def)
    have "split_from 0 True seg (l @ r) =
          seg # dropWhile is_space (tl l) # split_from (length (cs @ r) - length r) False [] (cs @ r)"
      using m True unfolding lc by simp
    also have "split_from (length (cs @ r) - length r) False [] (cs @ r) = split_from 0 False [] r"
      using split_from_skip[of cs False "[]" r] by auto
    finally show ?thesis
      using True tail[of "[]"]
      by (simp add: j preamble_heading raw_sections_def body_after_preamble r_def)
  next
    case False
    have "split_from 0 True seg (l @ r) = split_from 0 False (seg @ l) r"
    proof (cases l)
      case Nil
      show ?thesis
      proof (cases "ls = []")
        case True
        with Nil show ?thesis by (simp add: r_def)
      next
        case ne: False
        with Nil show ?thesis by (simp add: r_def h1_match_NL)
      qed
    next
      case (Cons c cs)
      have "c \<noteq> NL" using l(1) Cons by auto
      moreover have "h1_match (c # cs @ r) = None" using m False Cons by simp
      ultimately have "split_from 0 True seg (l @ r) = split_from 0 False (seg @ [c]) (cs @ r)"
        using Cons by simp
      also have "\<dots> = split_from 0 False (seg @ l) r"
        using l(1) Cons by (simp add: split_from_line)
      finally show ?thesis .
    qed
    with False tail[of "seg @ l"] show ?thesis
      by (cases "ls = []") (simp_all add: j preamble_single preamble_plain r_def raw_sections_def)
  qed
qed

lemma re_split_h1_chunks:
  assumes "\<forall>l \<in> set (lines_of s). \<not> blank_hash l"
  shows "re_split_h1 s = preamble (lines_of s) # raw_sections (chunks (lines_of s))"
proof -
  have "lines_of s \<noteq> []" by (simp add: lines_of_def split_on_nonempty)
  moreover have "\<forall>l \<in> set (lines_of s). NL \<notin> set l \<and> \<not> blank_hash l"
    using assms lines_of_no_NL by blast
  ultimately have "split_from 0 True [] (join_lines (lines_of s)) =
      ([] @ preamble (lines_of s)) # raw_sections (chunks (lines_of s))"
    by (rule split_from_lines)
  then show ?thesis by (simp add: re_split_h1_def join_lines_of)
qed


lemma chunks_headings: "map fst (chunks ls) = filter h1_line ls"
  by (induction ls) auto


lemma digits_range: "c \<in> set (digits n) \<Longrightarrow> 48 \<le> (of_char c :: nat) \<and> (of_char c :: nat) \<le> 57"
proof (induction n arbitrary: c rule: digits.induct)
  case (1 n)
  show ?case
  proof (cases "n < 10")
    case True
    with 1(2) show ?thesis by (simp add: digits.simps[of n])
  next
    case False
    with 1(2) have "c \<in> set (digits (n div 10)) \<or> c = char_of (48 + n mod 10)"
      by (auto simp: digits.simps[of n])
    then show ?thesis
    proof
      assume "c \<in> set (digits (n div 10))"
      with 1(1)[OF False] show ?thesis .
    next
      assume c: "c = char_of (48 + n mod 10)"
      have "n mod 10 < 10" by simp
      then have "(48 + n mod 10) mod 256 = 48 + n mod 10" by simp
      with c show ?thesis by simp
    qed
  qed
qed

lemma digits_nonempty: "digits n \<noteq> []"
  by (simp add: digits.simps[of n])

lemma num_of_snoc: "num_of (xs @ [c]) = 10 * num_of xs + digit_val c"
  by (simp add: num_of_def)

lemma num_of_digits: "num_of (digits n) = n"
proof (induction n rule: digits.induct)
  case (1 n)
  show ?case
  proof (cases "n < 10")
    case True
    then have "(48 + n) mod 256 = 48 + n" by simp
    with True show ?thesis
      by (simp add: digits.simps[of n] num_of_def digit_val_def)
  next
    case False
    have "n mod 10 < 10" by simp
    then have "(48 + n mod 10) mod 256 = 48 + n mod 10" by simp
    with False 1[OF False] show ?thesis
      by (simp add: digits.simps[of n] num_of_snoc digit_val_def)
  qed
qed

lemma num_of_zero: "num_of (CHR ''0'' # xs) = num_of xs"
  by (simp add: num_of_def digit_val_def)

lemma num_of_fmt02d: "num_of (fmt02d n) = n"
  by (simp add: fmt02d_def num_of_zero num_of_digits)

lemma fmt02d_range: "c \<in> set (fmt02d n) \<Longrightarrow> 48 \<le> (of_char c :: nat) \<and> (of_char c :: nat) \<le> 57"
  using digits_range[of c n] by (auto simp: fmt02d_def split: if_splits)

lemma fmt02d_nonempty: "fmt02d n \<noteq> []"
  by (simp add: fmt02d_def digits_nonempty)

lemma takeWhile_before_char: "s \<notin> set a \<Longrightarrow> takeWhile (\<lambda>c. c \<noteq> s) (a @ s # x) = a"
  by (induction a) auto

lemma prefix_before_char:
  assumes "a @ s # x = b @ s # y" "s \<notin> set a" "s \<notin> set b"
  shows "a = b"
  using takeWhile_before_char[OF assms(2), of x] takeWhile_before_char[OF assms(3), of y] assms(1)
  by simp

lemma path_join_inject:
  assumes "path_join d f = path_join d f'" "\<not> startswith f ''/''" "\<not> startswith f' ''/''"
  shows "f = f'"
  using assms by (auto simp: path_join_def split: if_splits)

lemma startswith_single: "startswith s [c] = (s \<noteq> [] \<and> hd s = c)"
  by (cases s) auto

lemma chapter_path_number:
  assumes "chapter_path md n h = chapter_path md n' h'"
  shows "n = n'"
proof -
  let ?f = "\<lambda>n h. fmt02d n @ ''-'' @ safe_title (strip (tl h)) @ ''.md''"
  have ns: "\<not> startswith (?f k g) ''/''" for k g
  proof -
    have "hd (?f k g) \<in> set (fmt02d k)" using fmt02d_nonempty[of k] by (cases "fmt02d k") auto
    from fmt02d_range[OF this] have "hd (?f k g) \<noteq> CHR ''/''" by auto
    then show ?thesis by (simp add: startswith_single)
  qed
  from assms have "?f n h = ?f n' h'"
    unfolding chapter_path_def by (rule path_join_inject) (rule ns)+
  then have eq: "fmt02d n @ CHR ''-'' # (safe_title (strip (tl h)) @ ''.md'') =
             fmt02d n' @ CHR ''-'' # (safe_title (strip (tl h')) @ ''.md'')" by simp
  have nd: "CHR ''-'' \<notin> set (fmt02d k)" for k using fmt02d_range[of "CHR ''-''" k] by auto
  have "fmt02d n = fmt02d n'" by (rule prefix_before_char[OF eq nd nd])
  then have "num_of (fmt02d n) = num_of (fmt02d n')" by simp
  then show ?thesis by (simp add: num_of_fmt02d)
qed


lemma strip_dropWhile: "strip (dropWhile is_space s) = strip s"
  by (simp add: strip_def lstrip_def)

lemma written_fields:
  "file_of (written w p c) = file_of w" "writable (written w p c) = writable w"
  "reads (written w p c) = reads w" "files (written w p c) = (files w)(file_of w p \<mapsto> c)"
  by (simp_all add: written_def)

text \<open>After a write that succeeded the path exists: the check the splitter makes passes.\<close>

lemma os_exists_written: "os_exists (written w p c) p"
  by (simp add: os_exists_def written_def)

lemma write_all_Cons: "write_all ((p, c) # pcs) w = write_all pcs (written w p c)"
  by (simp add: write_all_def)

lemma write_all_fields:
  "file_of (write_all pcs w) = file_of w \<and> writable (write_all pcs w) = writable w
   \<and> reads (write_all pcs w) = reads w"
proof (induction pcs arbitrary: w)
  case Nil
  show ?case by (simp add: write_all_def)
next
  case (Cons pc pcs)
  obtain p c where "pc = (p, c)" by (cases pc) auto
  with Cons[of "written w p c"] show ?case by (simp add: write_all_Cons written_fields)
qed

lemma chapters_loop_step:
  assumes "writable w (chapter_path md (Suc m) h)"
  shows "chapters_loop md (2 * m + 1) (raw_sections ((h, b) # cs)) out w =
         chapters_loop md (2 * Suc m + 1) (raw_sections cs) (out @ [chapter_path md (Suc m) h])
           (written w (chapter_path md (Suc m) h) (chapter_text (strip (tl h)) b))"
proof -
  have p: "path_join (dirname md) (chapter_filename (Suc (2 * m)) (strip (tl h))) =
      chapter_path md (Suc m) h"
    by (simp add: chapter_filename_def chapter_path_def)
  have r: "raw_sections ((h, b) # cs) = dropWhile is_space (tl h) # b # raw_sections cs"
    by (simp add: raw_sections_def)
  show ?thesis
    unfolding r using assms
    by (simp add: Let_def strip_dropWhile p os_exists_def os_write_def written_fields)
qed


lemma chapters_loop_unwritable:
  "\<exists>p \<in> fst ` set (expected_files md (Suc m) cs). \<not> writable w p \<Longrightarrow>
   isl (fst (chapters_loop md (2 * m + 1) (raw_sections cs) out w))"
proof (induction cs arbitrary: m out w)
  case Nil
  then show ?case by simp
next
  case (Cons hb cs)
  obtain h b where hb: "hb = (h, b)" by (cases hb) auto
  show ?case
  proof (cases "writable w (chapter_path md (Suc m) h)")
    case False
    have p: "path_join (dirname md) (chapter_filename (Suc (2 * m)) (strip (tl h))) =
        chapter_path md (Suc m) h"
      by (simp add: chapter_filename_def chapter_path_def)
    from False show ?thesis
      by (simp add: hb raw_sections_def Let_def strip_dropWhile p os_write_def)
  next
    case True
    define w1 where "w1 = written w (chapter_path md (Suc m) h) (chapter_text (strip (tl h)) b)"
    from Cons.prems hb True
    have "\<exists>p \<in> fst ` set (expected_files md (Suc (Suc m)) cs). \<not> writable w1 p"
      by (auto simp: w1_def written_fields)
    from Cons.IH[OF this, of "out @ [chapter_path md (Suc m) h]"]
      chapters_loop_step[OF True, of b cs out]
    show ?thesis by (simp add: hb w1_def)
  qed
qed

lemma expected_files_numbers:
  "p \<in> fst ` set (expected_files md n cs) \<Longrightarrow> \<exists>k h. n \<le> k \<and> p = chapter_path md k h"
proof (induction cs arbitrary: n)
  case Nil
  then show ?case by simp
next
  case (Cons hb cs)
  obtain h b where hb: "hb = (h, b)" by (cases hb) auto
  from Cons.prems hb have "p = chapter_path md n h \<or> p \<in> fst ` set (expected_files md (Suc n) cs)"
    by auto
  then show ?case
  proof
    assume "p = chapter_path md n h"
    then show ?thesis by blast
  next
    assume "p \<in> fst ` set (expected_files md (Suc n) cs)"
    from Cons.IH[OF this] obtain k g where "Suc n \<le> k" "p = chapter_path md k g" by blast
    then have "n \<le> k" by simp
    with \<open>p = chapter_path md k g\<close> show ?thesis by blast
  qed
qed

lemma expected_files_distinct: "distinct (map fst (expected_files md n cs))"
proof (induction cs arbitrary: n)
  case Nil
  show ?case by simp
next
  case (Cons hb cs)
  obtain h b where hb: "hb = (h, b)" by (cases hb) auto
  have "chapter_path md n h \<notin> fst ` set (expected_files md (Suc n) cs)"
  proof
    assume "chapter_path md n h \<in> fst ` set (expected_files md (Suc n) cs)"
    from expected_files_numbers[OF this] obtain k g where
      "Suc n \<le> k" "chapter_path md n h = chapter_path md k g" by blast
    with chapter_path_number[of md n h k g] show False by simp
  qed
  with Cons.IH[of "Suc n"] hb show ?case by simp
qed





lemma raw_sections_length: "length (raw_sections cs) = 2 * length cs"
  by (induction cs) (auto simp: raw_sections_def)

lemma split_markdown_sections:
  assumes "text_file w md_path stored"
    and "\<forall>l \<in> set (lines_of stored). \<not> blank_hash l"
  shows "split_markdown md_path w =
     (case chapters_loop md_path 1 (raw_sections (chunks (lines_of stored))) []
             (w\<lparr>reads := reads w @ [md_path]\<rparr>) of
        (Inl e, w2) \<Rightarrow> (Failed e, w2)
      | (Inr output_files, w2) \<Rightarrow>
          (Success \<lparr>split_files = output_files,
                    chapter_total = length (filter h1_line (lines_of stored))\<rparr>, w2))"
proof -
  have len: "length (chunks (lines_of stored)) = length (filter h1_line (lines_of stored))"
    by (metis chunks_headings length_map)
  have sec: "re_split_h1 stored =
      preamble (lines_of stored) # raw_sections (chunks (lines_of stored))"
    by (rule re_split_h1_chunks[OF assms(2)])
  from assms(1) have "os_read w md_path = (Inr stored, w\<lparr>reads := reads w @ [md_path]\<rparr>)"
    and "os_exists w md_path"
    by (simp_all add: text_file_def os_read_def os_exists_def)
  then show ?thesis
    by (simp add: split_markdown_def sec Let_def raw_sections_length len
          split: prod.split sum.split)
qed

text \<open>The path strings of the chapter files are pairwise different.\<close>

lemma chapter_paths_distinct: "distinct (chapter_paths md_path stored)"
  unfolding chapter_paths_def by (rule expected_files_distinct)




text \<open>
  The whitespace of the pattern includes line ends: a line with \<open>#\<close> alone takes the next
  line that is not blank as its title, here a line that is itself a heading.
\<close>

lemma hash_line_takes_next_line:
  "re_split_h1 (''#'' @ [NL] @ ''# B'' @ [NL]) = [[], ''# B'', [NL]]"
  by code_simp

text \<open>
  When a chapter path cannot be opened for writing, the splitter fails. A heading of
  250 characters gives a file name of 256, which a plain world refuses.
\<close>

lemma split_unwritable_fails:
  assumes "text_file w md_path stored"
    and "\<forall>l \<in> set (lines_of stored). \<not> blank_hash l"
    and "\<exists>p \<in> set (chapter_paths md_path stored). \<not> writable w p"
  shows "is_failed (fst (split_markdown md_path w))"
proof -
  define w1 where "w1 = w\<lparr>reads := reads w @ [md_path]\<rparr>"
  have "\<exists>p \<in> fst ` set (expected_files md_path (Suc 0) (chunks (lines_of stored))).
          \<not> writable w1 p"
    using assms(3) by (simp add: chapter_paths_def w1_def)
  from chapters_loop_unwritable[OF this, of "[]"]
  obtain e w2 where
    "chapters_loop md_path 1 (raw_sections (chunks (lines_of stored))) [] w1 = (Inl e, w2)"
    by (cases "chapters_loop md_path 1 (raw_sections (chunks (lines_of stored))) [] w1";
        cases "fst (chapters_loop md_path 1 (raw_sections (chunks (lines_of stored))) [] w1)")
       auto
  with split_markdown_sections[OF assms(1,2)] show ?thesis by (simp add: w1_def)
qed

lemma split_long_heading_fails:
  "is_failed (fst (split_markdown ''d/x.md'' (plain_world [''d/x.md'' \<mapsto> long_heading])))"
  by code_simp

end
